theory Spec2Isabelle
  imports Main
begin

section \<open>Python text\<close>

text \<open>
  A Python \<^verbatim>\<open>str\<close> is a sequence of Unicode code points; a code point is a natural
  number and a \<^verbatim>\<open>str\<close> a list of them. \<open>lit\<close> turns an ASCII literal of the script into
  such a list.
\<close>

type_synonym pystr = "nat list"

definition lit :: "string \<Rightarrow> pystr" where
  "lit s = map of_char s"

definition TAB :: nat where
  "TAB = 9"

definition UNDERSCORE :: nat where
  "UNDERSCORE = 95"

definition SEP :: nat where
  "SEP = 47"

text \<open>Every exception the script can die of is a value.\<close>

datatype error =
    IndexError
  | IOError
  | SoxError
  | ReadError
  | UnicodeDecodeError
  | UnicodeEncodeError
  | FileExistsError
  | FileNotFoundError
  | NotADirectoryError
  | IsADirectoryError

text \<open>\<^verbatim>\<open>s.find(c)\<close> for a one-character needle: the first index, or \<open>-1\<close>.\<close>

fun str_find :: "pystr \<Rightarrow> nat \<Rightarrow> int" where
  "str_find [] c = - 1"
| "str_find (x # xs) c =
     (if x = c then 0
      else (let r = str_find xs c in if r < 0 then - 1 else r + 1))"

text \<open>
  Slices with one bound, \<^verbatim>\<open>s[:k]\<close> and \<^verbatim>\<open>s[k:]\<close>: a negative bound counts from the
  end, and the bound is clipped to the string.
\<close>

definition slice_index :: "pystr \<Rightarrow> int \<Rightarrow> nat" where
  "slice_index s k =
     (let n = int (length s);
          j = (if k < 0 then k + n else k)
      in nat (max 0 (min n j)))"

definition slice_to :: "pystr \<Rightarrow> int \<Rightarrow> pystr" where
  "slice_to s k = take (slice_index s k) s"

definition slice_from :: "pystr \<Rightarrow> int \<Rightarrow> pystr" where
  "slice_from s k = drop (slice_index s k) s"

text \<open>\<^verbatim>\<open>s.split(c)\<close> for a one-character separator; the result is never empty.\<close>

fun str_split :: "nat \<Rightarrow> pystr \<Rightarrow> pystr list" where
  "str_split c [] = [[]]"
| "str_split c (x # xs) =
     (if x = c then [] # str_split c xs
      else (case str_split c xs of
              [] \<Rightarrow> [[x]]
            | p # ps \<Rightarrow> (x # p) # ps))"

text \<open>\<^verbatim>\<open>xs[i]\<close> for a non-negative index: out of range raises.\<close>

definition py_index :: "'a list \<Rightarrow> nat \<Rightarrow> error + 'a" where
  "py_index xs i = (if i < length xs then Inr (xs ! i) else Inl IndexError)"

text \<open>
  \<^verbatim>\<open>str.strip()\<close> removes the characters for which \<^verbatim>\<open>str.isspace()\<close> holds from both
  ends.
\<close>

definition isspace :: "nat \<Rightarrow> bool" where
  "isspace c \<longleftrightarrow>
     (9 \<le> c \<and> c \<le> 13) \<or> (28 \<le> c \<and> c \<le> 32) \<or> c = 133 \<or> c = 160 \<or> c = 5760
     \<or> (8192 \<le> c \<and> c \<le> 8202) \<or> c = 8232 \<or> c = 8233 \<or> c = 8239 \<or> c = 8287
     \<or> c = 12288"

definition lstrip :: "pystr \<Rightarrow> pystr" where
  "lstrip s = dropWhile isspace s"

definition rstrip :: "pystr \<Rightarrow> pystr" where
  "rstrip s = rev (dropWhile isspace (rev s))"

definition strip :: "pystr \<Rightarrow> pystr" where
  "strip s = rstrip (lstrip s)"

section \<open>posixpath\<close>

text \<open>
  \<^verbatim>\<open>os.path.join(a, *p)\<close>: a component that starts with the separator discards what was
  joined so far; otherwise it is appended, with a separator unless the path is empty or
  already ends with one.
\<close>

definition join_step :: "pystr \<Rightarrow> pystr \<Rightarrow> pystr" where
  "join_step path b =
     (if b \<noteq> [] \<and> hd b = SEP then b
      else if path = [] \<or> last path = SEP then path @ b
      else path @ [SEP] @ b)"

definition path_join :: "pystr \<Rightarrow> pystr list \<Rightarrow> pystr" where
  "path_join a p = foldl join_step a p"

text \<open>\<^verbatim>\<open>sep.join(comps)\<close>.\<close>

fun sep_join :: "pystr list \<Rightarrow> pystr" where
  "sep_join [] = []"
| "sep_join [c] = c"
| "sep_join (c # cs) = c @ [SEP] @ sep_join cs"

text \<open>
  \<^verbatim>\<open>os.path.normpath\<close>: the loop over the components drops empty ones and \<^verbatim>\<open>.\<close>, and
  lets \<^verbatim>\<open>..\<close> take back the component before it.
\<close>

fun normpath_loop :: "bool \<Rightarrow> pystr list \<Rightarrow> pystr list \<Rightarrow> pystr list" where
  "normpath_loop initial new_comps [] = new_comps"
| "normpath_loop initial new_comps (cmp # comps) =
     (if cmp = [] \<or> cmp = lit ''.'' then normpath_loop initial new_comps comps
      else if cmp \<noteq> lit ''..'' \<or> (\<not> initial \<and> new_comps = [])
              \<or> (new_comps \<noteq> [] \<and> last new_comps = lit ''..'')
        then normpath_loop initial (new_comps @ [cmp]) comps
      else if new_comps \<noteq> [] then normpath_loop initial (butlast new_comps) comps
      else normpath_loop initial new_comps comps)"

definition initial_slashes :: "pystr \<Rightarrow> nat" where
  "initial_slashes path =
     (if take 1 path = [SEP] then
        (if take 2 path = [SEP, SEP] \<and> take 3 path \<noteq> [SEP, SEP, SEP] then 2 else 1)
      else 0)"

definition normpath :: "pystr \<Rightarrow> pystr" where
  "normpath path =
     (if path = [] then lit ''.''
      else (let n = initial_slashes path;
                comps = normpath_loop (0 < n) [] (str_split SEP path);
                res = replicate n SEP @ sep_join comps
            in if res = [] then lit ''.'' else res))"

text \<open>\<^verbatim>\<open>os.path.abspath\<close>, with the working directory of the process passed in.\<close>

definition abspath :: "pystr \<Rightarrow> pystr \<Rightarrow> pystr" where
  "abspath cwd path =
     normpath (if take 1 path = [SEP] then path else path_join cwd [path])"

section \<open>The UTF-8 codec with the \<^verbatim>\<open>ignore\<close> error handler\<close>

text \<open>
  \<^verbatim>\<open>s.encode("utf-8", "ignore")\<close> writes one to four bytes for a code point and nothing
  for a surrogate, which UTF-8 cannot represent. A \<^verbatim>\<open>str\<close> holds no code point above
  \<open>0x10FFFF\<close>; the encoder of the model writes nothing for such a number either.
  \<^verbatim>\<open>b.decode("utf-8", "ignore")\<close> reads well-formed sequences and drops every byte that
  starts none.
\<close>

definition encodable :: "nat \<Rightarrow> bool" where
  "encodable c \<longleftrightarrow> c < 0xD800 \<or> (0xDFFF < c \<and> c \<le> 0x10FFFF)"

definition utf8_encode_char :: "nat \<Rightarrow> nat list" where
  "utf8_encode_char c =
     (if c < 0x80 then [c]
      else if c < 0x800 then [0xC0 + c div 64, 0x80 + c mod 64]
      else if 0xD800 \<le> c \<and> c \<le> 0xDFFF then []
      else if c < 0x10000 then
        [0xE0 + c div 4096, 0x80 + c div 64 mod 64, 0x80 + c mod 64]
      else if c \<le> 0x10FFFF then
        [0xF0 + c div 262144, 0x80 + c div 4096 mod 64, 0x80 + c div 64 mod 64,
         0x80 + c mod 64]
      else [])"

definition utf8_encode_ignore :: "pystr \<Rightarrow> nat list" where
  "utf8_encode_ignore s = concat (map utf8_encode_char s)"

definition cont :: "nat \<Rightarrow> bool" where
  "cont b \<longleftrightarrow> 0x80 \<le> b \<and> b \<le> 0xBF"

definition second3 :: "nat \<Rightarrow> nat \<Rightarrow> bool" where
  "second3 b0 b1 \<longleftrightarrow>
     (if b0 = 0xE0 then 0xA0 \<le> b1 \<and> b1 \<le> 0xBF
      else if b0 = 0xED then 0x80 \<le> b1 \<and> b1 \<le> 0x9F
      else cont b1)"

definition second4 :: "nat \<Rightarrow> nat \<Rightarrow> bool" where
  "second4 b0 b1 \<longleftrightarrow>
     (if b0 = 0xF0 then 0x90 \<le> b1 \<and> b1 \<le> 0xBF
      else if b0 = 0xF4 then 0x80 \<le> b1 \<and> b1 \<le> 0x8F
      else cont b1)"

fun utf8_decode_ignore :: "nat list \<Rightarrow> pystr" where
  "utf8_decode_ignore [] = []"
| "utf8_decode_ignore (b0 # bs) =
     (if b0 < 0x80 then b0 # utf8_decode_ignore bs
      else if 0xC2 \<le> b0 \<and> b0 \<le> 0xDF then
        (case bs of
           b1 # r \<Rightarrow>
             if cont b1 then ((b0 - 0xC0) * 64 + (b1 - 0x80)) # utf8_decode_ignore r
             else utf8_decode_ignore bs
         | _ \<Rightarrow> utf8_decode_ignore bs)
      else if 0xE0 \<le> b0 \<and> b0 \<le> 0xEF then
        (case bs of
           b1 # b2 # r \<Rightarrow>
             if second3 b0 b1 \<and> cont b2
             then ((b0 - 0xE0) * 4096 + (b1 - 0x80) * 64 + (b2 - 0x80)) # utf8_decode_ignore r
             else utf8_decode_ignore bs
         | _ \<Rightarrow> utf8_decode_ignore bs)
      else if 0xF0 \<le> b0 \<and> b0 \<le> 0xF4 then
        (case bs of
           b1 # b2 # b3 # r \<Rightarrow>
             if second4 b0 b1 \<and> cont b2 \<and> cont b3
             then ((b0 - 0xF0) * 262144 + (b1 - 0x80) * 4096 + (b2 - 0x80) * 64 + (b3 - 0x80))
                    # utf8_decode_ignore r
             else utf8_decode_ignore bs
         | _ \<Rightarrow> utf8_decode_ignore bs)
      else utf8_decode_ignore bs)"

section \<open>The Unicode database and the functions that read it\<close>

text \<open>
  \<^verbatim>\<open>unicodedata.normalize\<close> and \<^verbatim>\<open>str.lower\<close> read tables of the Unicode Character
  Database that come with the interpreter, not with the script. The tables are a
  parameter: for a code point, its decomposition mapping with the flag of a compatibility
  tag (an empty mapping when it has none), its canonical combining class, its full
  lower-case mapping, and the properties Cased and Case_Ignorable.

  The decomposing forms run the loop of \<^verbatim>\<open>nfd_nfkd\<close> in \<^verbatim>\<open>unicodedata.c\<close>: a stack of code
  points still to expand (Hangul syllables by arithmetic, the others by the table, a
  compatibility mapping only when \<open>k\<close> is set), then the canonical reordering of
  combining marks. The expansion need not end for an arbitrary table, so its result is an
  option.
\<close>

record unidata =
  decomp :: "nat \<Rightarrow> bool \<times> nat list"
  combining :: "nat \<Rightarrow> nat"
  tolower_full :: "nat \<Rightarrow> nat list"
  cased :: "nat \<Rightarrow> bool"
  case_ignorable :: "nat \<Rightarrow> bool"

definition hangul_syllable :: "nat \<Rightarrow> bool" where
  "hangul_syllable c \<longleftrightarrow> 0xAC00 \<le> c \<and> c < 0xAC00 + 11172"

definition hangul_decompose :: "nat \<Rightarrow> nat list" where
  "hangul_decompose c =
     (let sindex = c - 0xAC00;
          l = 0x1100 + sindex div 588;
          v = 0x1161 + (sindex mod 588) div 28;
          t = 0x11A7 + sindex mod 28
      in if t \<noteq> 0x11A7 then [l, v, t] else [l, v])"

partial_function (option) decompose_stack :: "unidata \<Rightarrow> bool \<Rightarrow> nat list \<Rightarrow> nat list option" where
  [code]: "decompose_stack U k stack =
     (case stack of
        [] \<Rightarrow> Some []
      | code # rest \<Rightarrow>
          if hangul_syllable code
          then Option.bind (decompose_stack U k rest) (\<lambda>out. Some (hangul_decompose code @ out))
          else if snd (decomp U code) = [] \<or> (fst (decomp U code) \<and> \<not> k)
          then Option.bind (decompose_stack U k rest) (\<lambda>out. Some (code # out))
          else decompose_stack U k (snd (decomp U code) @ rest))"

text \<open>The code points of the string go on the stack one at a time.\<close>

fun decompose_str :: "unidata \<Rightarrow> bool \<Rightarrow> pystr \<Rightarrow> pystr option" where
  "decompose_str U k [] = Some []"
| "decompose_str U k (c # cs) =
     Option.bind (decompose_stack U k [c])
       (\<lambda>a. Option.bind (decompose_str U k cs) (\<lambda>b. Some (a @ b)))"

text \<open>
  The reordering goes through the string once. A code point of class zero, or of a class
  not below the class of the one before it, stays; a mark of a smaller class moves back
  over the marks of greater classes before it. \<open>acc\<close> is the part already in order, its
  last code point first.
\<close>

fun place :: "(nat \<Rightarrow> nat) \<Rightarrow> nat \<Rightarrow> nat list \<Rightarrow> nat list" where
  "place ccc x [] = [x]"
| "place ccc x (p # ps) =
     (if ccc p = 0 \<or> ccc p \<le> ccc x then x # p # ps else p # place ccc x ps)"

definition sort_step :: "(nat \<Rightarrow> nat) \<Rightarrow> nat list \<Rightarrow> nat \<Rightarrow> nat list" where
  "sort_step ccc acc x = (if ccc x = 0 then x # acc else place ccc x acc)"

definition canonical_sort :: "(nat \<Rightarrow> nat) \<Rightarrow> pystr \<Rightarrow> pystr" where
  "canonical_sort ccc s = rev (foldl (sort_step ccc) [] s)"

definition nfd_nfkd :: "unidata \<Rightarrow> bool \<Rightarrow> pystr \<Rightarrow> pystr option" where
  "nfd_nfkd U k s =
     Option.bind (decompose_str U k s) (\<lambda>d. Some (canonical_sort (combining U) d))"

text \<open>The forms without composition; \<^verbatim>\<open>"NFKD"\<close> is the one the script asks for.\<close>

datatype form = NFD | NFKD

definition unicodedata_normalize :: "unidata \<Rightarrow> form \<Rightarrow> pystr \<Rightarrow> pystr option" where
  "unicodedata_normalize U f s = nfd_nfkd U (f = NFKD) s"

text \<open>
  \<^verbatim>\<open>str.lower()\<close>: every code point goes through the full lower-case mapping, except the
  capital sigma, which becomes the final or the ordinary small sigma by its context
  (\<open>pre\<close> is the text before it, nearest first).
\<close>

definition final_sigma :: "unidata \<Rightarrow> pystr \<Rightarrow> pystr \<Rightarrow> bool" where
  "final_sigma U pre post =
     (case dropWhile (case_ignorable U) pre of
        [] \<Rightarrow> False
      | c # _ \<Rightarrow>
          cased U c \<and>
          (case dropWhile (case_ignorable U) post of
             [] \<Rightarrow> True
           | d # _ \<Rightarrow> \<not> cased U d))"

definition lower_ucs4 :: "unidata \<Rightarrow> pystr \<Rightarrow> nat \<Rightarrow> pystr \<Rightarrow> pystr" where
  "lower_ucs4 U pre c post =
     (if c = 0x3A3 then [if final_sigma U pre post then 0x3C2 else 0x3C3]
      else tolower_full U c)"

fun do_lower :: "unidata \<Rightarrow> pystr \<Rightarrow> pystr \<Rightarrow> pystr" where
  "do_lower U pre [] = []"
| "do_lower U pre (c # cs) = lower_ucs4 U pre c cs @ do_lower U (c # pre) cs"

definition str_lower :: "unidata \<Rightarrow> pystr \<Rightarrow> pystr" where
  "str_lower U s = do_lower U [] s"

text \<open>
  Some entries of the database (\<^verbatim>\<open>UnicodeData.txt\<close>, version 14): the ligature fi and the
  no-break space with their compatibility mappings, the letter A with ring and the
  Angstrom sign with their canonical ones, three combining marks with their classes, the
  ASCII letters with their case.
\<close>

definition ucd_sample :: unidata where
  "ucd_sample =
     \<lparr> decomp = (\<lambda>c. if c = 0xFB01 then (True, [0x66, 0x69])
                     else if c = 0xA0 then (True, [0x20])
                     else if c = 0xC5 then (False, [0x41, 0x30A])
                     else if c = 0x212B then (False, [0xC5])
                     else (False, [])),
       combining = (\<lambda>c. if c = 0x301 \<or> c = 0x30A then 230 else if c = 0x323 then 220 else 0),
       tolower_full = (\<lambda>c. if 0x41 \<le> c \<and> c \<le> 0x5A then [c + 32] else [c]),
       cased = (\<lambda>c. (0x41 \<le> c \<and> c \<le> 0x5A) \<or> (0x61 \<le> c \<and> c \<le> 0x7A) \<or> c = 0x3A3 \<or> c = 0x3C2 \<or> c = 0x3C3),
       case_ignorable = (\<lambda>c. c = 0x27 \<or> c = 0x2E \<or> c = 0x301 \<or> c = 0x30A \<or> c = 0x323) \<rparr>"

section \<open>Parsing a transcript line\<close>

text \<open>
  Lines 128 and 129 of the script:
  \<^verbatim>\<open>first_space = line.find("\t")\<close>,
  \<^verbatim>\<open>seqid, transcript = line[:first_space], line[first_space + 1:]\<close>.
\<close>

definition parse_line :: "pystr \<Rightarrow> pystr \<times> pystr" where
  "parse_line line =
     (let first_space = str_find line TAB
      in (slice_to line first_space, slice_from line (first_space + 1)))"

text \<open>
  Lines 143 and 144:
  \<^verbatim>\<open>split_seq = seqid.split('_')\<close>,
  \<^verbatim>\<open>flac_file = os.path.join(root, 'audio', split_seq[0], split_seq[1], seqid + ".flac")\<close>.
\<close>

definition flac_path :: "pystr \<Rightarrow> pystr \<Rightarrow> error + pystr" where
  "flac_path root seqid =
     (let split_seq = str_split UNDERSCORE seqid
      in case py_index split_seq 0 of
           Inl e \<Rightarrow> Inl e
         | Inr c0 \<Rightarrow>
             (case py_index split_seq 1 of
                Inl e \<Rightarrow> Inl e
              | Inr c1 \<Rightarrow>
                  Inr (path_join root [lit ''audio'', c0, c1, seqid @ lit ''.flac''])))"

text \<open>Line 145: \<^verbatim>\<open>wav_file = os.path.join(target_dir, seqid + ".wav")\<close>.\<close>

definition wav_path :: "pystr \<Rightarrow> pystr \<Rightarrow> pystr" where
  "wav_path target_dir seqid = path_join target_dir [seqid @ lit ''.wav'']"

section \<open>Normalising a transcript\<close>

text \<open>
  Lines 134 to 140:
  \<^verbatim>\<open>unicodedata.normalize("NFKD", transcript).encode("utf-8", "ignore").decode("utf-8", "ignore")\<close>,
  then \<^verbatim>\<open>transcript.lower().strip()\<close>.
\<close>

definition normalize_transcript :: "unidata \<Rightarrow> pystr \<Rightarrow> pystr option" where
  "normalize_transcript U transcript =
     (case unicodedata_normalize U NFKD transcript of
        None \<Rightarrow> None
      | Some t \<Rightarrow>
          Some (strip (str_lower U (utf8_decode_ignore (utf8_encode_ignore t)))))"

text \<open>
  The normalisation as the specification words it, with the canonical decomposition
  (form NFD) in the place of the form the script asks for.
\<close>

definition normalize_spec :: "unidata \<Rightarrow> pystr \<Rightarrow> pystr option" where
  "normalize_spec U transcript =
     (case unicodedata_normalize U NFD transcript of
        None \<Rightarrow> None
      | Some t \<Rightarrow>
          Some (strip (str_lower U (utf8_decode_ignore (utf8_encode_ignore t)))))"

text \<open>
  What the idempotence of the normalisation rests on in the database. A code point is
  undecomposable when the decomposing forms leave it alone. The database is asked that
  mappings hold code points of Unicode only, that the conjoining jamo have no mapping,
  that the lower-case mapping of an undecomposable code point is one undecomposable code
  point of the same combining class which is its own lower case, and that the two small
  sigmas are such code points of the class of the capital one. The database of Unicode 14
  meets all of this.
\<close>

definition undecomposable :: "unidata \<Rightarrow> nat \<Rightarrow> bool" where
  "undecomposable U c \<longleftrightarrow> \<not> hangul_syllable c \<and> snd (decomp U c) = []"

definition lower_keeps_normal :: "unidata \<Rightarrow> bool" where
  "lower_keeps_normal U \<longleftrightarrow>
     (\<forall>c. \<forall>d \<in> set (snd (decomp U c)). encodable d) \<and>
     (\<forall>c. 0x1100 \<le> c \<and> c \<le> 0x11FF \<longrightarrow> snd (decomp U c) = []) \<and>
     (\<forall>c. undecomposable U c \<and> encodable c \<and> c \<noteq> 0x3A3 \<longrightarrow>
        (\<exists>d. tolower_full U c = [d] \<and> undecomposable U d \<and> encodable d \<and> d \<noteq> 0x3A3
             \<and> combining U d = combining U c \<and> tolower_full U d = [d])) \<and>
     (\<forall>d \<in> {0x3C2, 0x3C3}.
        undecomposable U d \<and> combining U d = combining U 0x3A3 \<and> tolower_full U d = [d])"

text \<open>Two neighbours are in canonical order.\<close>

definition in_order :: "(nat \<Rightarrow> nat) \<Rightarrow> nat \<Rightarrow> nat \<Rightarrow> bool" where
  "in_order ccc a b \<longleftrightarrow> ccc b = 0 \<or> ccc a \<le> ccc b"

section \<open>Files and directories\<close>

text \<open>
  The file system is a tree. An entry is a file with its bytes or a directory, and is
  found under its key, the names on the way from the root to it; the root, the empty key,
  is a directory. There are no symbolic links and no permissions. The world also holds
  the working directory, the log of the conversions asked of sox, and the log of the CSV
  files written, each with its sequence of records.
\<close>

datatype node = File "nat list" | Dir

datatype cell = Text pystr | Number nat

type_synonym key = "pystr list"

type_synonym files = "key \<Rightarrow> node option"

type_synonym row = "pystr \<times> nat \<times> pystr"

record world =
  fs :: files
  cwd :: pystr
  builds :: "(pystr \<times> pystr \<times> nat) list"
  csvs :: "(pystr \<times> cell list list) list"

definition node_at :: "files \<Rightarrow> key \<Rightarrow> node option" where
  "node_at f k = (if k = [] then Some Dir else f k)"

text \<open>
  The operating system resolves a path name by name. Each name is looked up in the entry
  reached so far, which must be a directory: the empty name and \<^verbatim>\<open>.\<close> stay there, \<^verbatim>\<open>..\<close>
  goes one directory up (the root is above itself), any other name goes down to the entry
  of that name, which need not exist. A path that begins with the separator starts at the
  root, another one at the working directory; the empty path is no entry.
\<close>

definition step :: "key \<Rightarrow> pystr \<Rightarrow> key" where
  "step cur name =
     (if name = [] \<or> name = lit ''.'' then cur
      else if name = lit ''..'' then butlast cur
      else cur @ [name])"

fun namei :: "files \<Rightarrow> key \<Rightarrow> pystr list \<Rightarrow> error + key" where
  "namei f cur [] = Inr cur"
| "namei f cur (name # names) =
     (case node_at f cur of
        None \<Rightarrow> Inl FileNotFoundError
      | Some (File d) \<Rightarrow> Inl NotADirectoryError
      | Some Dir \<Rightarrow> namei f (step cur name) names)"

definition start :: "pystr \<Rightarrow> pystr \<Rightarrow> key" where
  "start c p = (if p \<noteq> [] \<and> hd p = SEP then [] else foldl step [] (str_split SEP c))"

definition resolve :: "pystr \<Rightarrow> files \<Rightarrow> pystr \<Rightarrow> error + key" where
  "resolve c f p =
     (if p = [] then Inl FileNotFoundError else namei f (start c p) (str_split SEP p))"

text \<open>\<^verbatim>\<open>os.stat\<close>, as far as the kind of the entry and its bytes.\<close>

definition stat :: "pystr \<Rightarrow> files \<Rightarrow> pystr \<Rightarrow> error + node" where
  "stat c f p =
     (case resolve c f p of
        Inl e \<Rightarrow> Inl e
      | Inr k \<Rightarrow>
          (case node_at f k of
             None \<Rightarrow> Inl FileNotFoundError
           | Some n \<Rightarrow> Inr n))"

text \<open>\<^verbatim>\<open>os.path.exists\<close> (and \<^verbatim>\<open>gfile.Exists\<close>): whether \<^verbatim>\<open>os.stat\<close> succeeds.\<close>

definition os_path_exists :: "pystr \<Rightarrow> files \<Rightarrow> pystr \<Rightarrow> bool" where
  "os_path_exists c f p = (case stat c f p of Inl e \<Rightarrow> False | Inr n \<Rightarrow> True)"

definition path_exists :: "world \<Rightarrow> pystr \<Rightarrow> bool" where
  "path_exists w p = os_path_exists (cwd w) (fs w) p"

text \<open>\<^verbatim>\<open>os.path.split\<close>: the head loses its trailing separators unless it is all separators.\<close>

definition path_split :: "pystr \<Rightarrow> pystr \<times> pystr" where
  "path_split p =
     (let tail = rev (takeWhile (\<lambda>c. c \<noteq> SEP) (rev p));
          head = rev (dropWhile (\<lambda>c. c \<noteq> SEP) (rev p))
      in (if head \<noteq> [] \<and> head \<noteq> replicate (length head) SEP
          then rev (dropWhile (\<lambda>c. c = SEP) (rev head)) else head,
          tail))"

text \<open>
  To make an entry the operating system takes the path without its trailing separators,
  resolves all but the last name to a directory, which must exist, and is left with that
  directory and the last name.
\<close>

definition strip_sep :: "pystr \<Rightarrow> pystr" where
  "strip_sep p = rev (dropWhile (\<lambda>c. c = SEP) (rev p))"

definition resolve_parent :: "pystr \<Rightarrow> files \<Rightarrow> pystr \<Rightarrow> error + key \<times> pystr" where
  "resolve_parent c f p =
     (case namei f (start c p) (butlast (str_split SEP p)) of
        Inl e \<Rightarrow> Inl e
      | Inr par \<Rightarrow>
          (case node_at f par of
             None \<Rightarrow> Inl FileNotFoundError
           | Some (File d) \<Rightarrow> Inl NotADirectoryError
           | Some Dir \<Rightarrow> Inr (par, last (str_split SEP p))))"

text \<open>\<^verbatim>\<open>os.mkdir\<close>: the entry must not exist.\<close>

definition mkdir :: "pystr \<Rightarrow> pystr \<Rightarrow> files \<Rightarrow> files \<times> error option" where
  "mkdir c p f =
     (if p = [] then (f, Some FileNotFoundError)
      else if strip_sep p = [] then (f, Some FileExistsError)
      else (case resolve_parent c f (strip_sep p) of
              Inl e \<Rightarrow> (f, Some e)
            | Inr (par, name) \<Rightarrow>
                if node_at f (step par name) \<noteq> None then (f, Some FileExistsError)
                else if name = lit ''.'' \<or> name = lit ''..'' then (f, Some FileNotFoundError)
                else (f(par @ [name] \<mapsto> Dir), None)))"

text \<open>
  Opening a file for writing and writing the bytes: a path that ends with a separator,
  or with \<^verbatim>\<open>.\<close> or \<^verbatim>\<open>..\<close>, or that is a directory, cannot be written.
\<close>

definition write_file :: "pystr \<Rightarrow> pystr \<Rightarrow> nat list \<Rightarrow> files \<Rightarrow> files \<times> error option" where
  "write_file c p d f =
     (if p = [] then (f, Some FileNotFoundError)
      else if strip_sep p = [] then (f, Some IsADirectoryError)
      else (case resolve_parent c f (strip_sep p) of
              Inl e \<Rightarrow> (f, Some e)
            | Inr (par, name) \<Rightarrow>
                if strip_sep p \<noteq> p \<or> name = lit ''.'' \<or> name = lit ''..''
                   \<or> f (par @ [name]) = Some Dir
                then (f, Some IsADirectoryError)
                else (f(par @ [name] \<mapsto> File d), None)))"

text \<open>
  \<^verbatim>\<open>os.makedirs(name)\<close>: the head of the name is made first when it is missing (that it
  exists by then is no error), then the directory itself.
\<close>

definition makedirs_split :: "pystr \<Rightarrow> pystr \<times> pystr" where
  "makedirs_split p =
     (let (head, tail) = path_split p
      in if tail = [] then path_split head else (head, tail))"

function makedirs :: "pystr \<Rightarrow> pystr \<Rightarrow> files \<Rightarrow> files \<times> error option" where
  "makedirs c p f =
     (if fst (makedirs_split p) \<noteq> [] \<and> snd (makedirs_split p) \<noteq> []
         \<and> \<not> os_path_exists c f (fst (makedirs_split p))
      then (case makedirs c (fst (makedirs_split p)) f of
              (f1, e) \<Rightarrow>
                if e \<noteq> None \<and> e \<noteq> Some FileExistsError then (f1, e)
                else if snd (makedirs_split p) = lit ''.'' then (f1, None)
                else mkdir c p f1)
      else mkdir c p f)"
  by pat_completeness auto
termination
proof (relation "measure (\<lambda>(c, p, f). length p)")
  show "wf (measure (\<lambda>(c, p, f). length p))" by simp
next
  fix c p :: pystr and f :: files
  assume a: "fst (makedirs_split p) \<noteq> [] \<and> snd (makedirs_split p) \<noteq> []
    \<and> \<not> os_path_exists c f (fst (makedirs_split p))"
  have len: "length (fst (path_split q)) + length (snd (path_split q)) \<le> length q" for q
  proof -
    have "length (dropWhile (\<lambda>c. c = SEP) (rev (rev (dropWhile (\<lambda>c. c \<noteq> SEP) (rev q)))))
        \<le> length (dropWhile (\<lambda>c. c \<noteq> SEP) (rev q))"
      using length_dropWhile_le [of "\<lambda>c. c = SEP" "dropWhile (\<lambda>c. c \<noteq> SEP) (rev q)"] by simp
    moreover have "length (takeWhile (\<lambda>c. c \<noteq> SEP) (rev q) @ dropWhile (\<lambda>c. c \<noteq> SEP) (rev q))
        = length (rev q)"
      by (simp only: takeWhile_dropWhile_id)
    then have "length (takeWhile (\<lambda>c. c \<noteq> SEP) (rev q))
        + length (dropWhile (\<lambda>c. c \<noteq> SEP) (rev q)) = length q"
      by (simp only: length_append length_rev)
    ultimately show ?thesis by (simp add: path_split_def Let_def)
  qed
  have "length (fst (makedirs_split p)) + length (snd (makedirs_split p)) \<le> length p"
    using len [of p] len [of "fst (path_split p)"]
    by (simp add: makedirs_split_def Let_def split_beta)
  then have "length (fst (makedirs_split p)) < length p" using a by (cases "snd (makedirs_split p)") auto
  then show "((c, fst (makedirs_split p), f), (c, p, f)) \<in> measure (\<lambda>(c, p, f). length p)" by simp
qed

declare makedirs.simps [simp del]

text \<open>
  A file system grows when every entry stays, and a directory stays a directory. None of
  the operations above takes an entry away or puts a file in the place of a directory.
\<close>

definition grows :: "files \<Rightarrow> files \<Rightarrow> bool" where
  "grows f f' \<longleftrightarrow>
     (\<forall>k. f k = Some Dir \<longrightarrow> f' k = Some Dir) \<and> (\<forall>k. f k \<noteq> None \<longrightarrow> f' k \<noteq> None)"

section \<open>The audio converter and the lines of a transcript file\<close>

record member =
  m_name :: pystr
  m_isdir :: bool
  m_data :: "nat list"

text \<open>
  What the script takes from outside: the Unicode database; sox, which for a sample
  rate, the path of the input, the path of the output and the world gives the bytes it
  writes to the output or fails; the directory walk of \<^verbatim>\<open>os.walk\<close> (for a top directory, the
  triples of directory, subdirectory names and file names it yields); the lines the UTF-8
  reader yields for a file and the error it may end with; the members \<^verbatim>\<open>tarfile\<close> finds in
  the bytes of an archive; the size the file system reports for a directory;
  \<^verbatim>\<open>maybe_download\<close> of the training package; and the text \<^verbatim>\<open>pandas\<close> writes for a
  sequence of records, with the error the writing may end with.
\<close>

record env =
  ucd :: unidata
  sox :: "nat \<Rightarrow> pystr \<Rightarrow> pystr \<Rightarrow> world \<Rightarrow> nat list option"
  walk :: "pystr \<Rightarrow> (pystr \<times> pystr list \<times> pystr list) list"
  reader :: "pystr \<Rightarrow> pystr list \<times> error option"
  tar_members :: "nat list \<Rightarrow> member list option"
  dir_size :: nat
  maybe_download :: "pystr \<Rightarrow> pystr \<Rightarrow> pystr \<Rightarrow> world \<Rightarrow> world \<times> (error + pystr)"
  csv_text :: "cell list list \<Rightarrow> nat list \<times> error option"

definition SAMPLE_RATE :: nat where
  "SAMPLE_RATE = 16000"

text \<open>\<^verbatim>\<open>os.path.getsize\<close>.\<close>

definition getsize :: "env \<Rightarrow> world \<Rightarrow> pystr \<Rightarrow> error + nat" where
  "getsize E w p =
     (case stat (cwd w) (fs w) p of
        Inl e \<Rightarrow> Inl e
      | Inr (File d) \<Rightarrow> Inr (length d)
      | Inr Dir \<Rightarrow> Inr (dir_size E))"

text \<open>
  \<^verbatim>\<open>tfm = Transformer(); tfm.set_output_format(rate=rate); tfm.build(input, output)\<close>: the
  call is logged. The package first checks that the input exists and that the directory
  of the output, when the output names one, is there to be written to, and raises
  otherwise; then sox runs, and the call raises when sox fails or cannot write the output
  file.
\<close>

definition transformer_build ::
  "env \<Rightarrow> nat \<Rightarrow> pystr \<Rightarrow> pystr \<Rightarrow> world \<Rightarrow> world \<times> error option" where
  "transformer_build E rate input output w =
     (let w1 = w\<lparr>builds := builds w @ [(input, output, rate)]\<rparr>
      in if \<not> path_exists w input then (w1, Some IOError)
         else if fst (path_split output) \<noteq> [] \<and> \<not> path_exists w (fst (path_split output))
         then (w1, Some IOError)
         else (case sox E rate input output w of
                 None \<Rightarrow> (w1, Some SoxError)
               | Some out \<Rightarrow>
                   (case write_file (cwd w) output out (fs w) of
                      (f1, Some e) \<Rightarrow> (w1, Some SoxError)
                    | (f1, None) \<Rightarrow> (w1\<lparr>fs := f1\<rparr>, None))))"

text \<open>Lines 146 to 149: the conversion, unless the WAV file is there.\<close>

definition ensure_wav :: "env \<Rightarrow> pystr \<Rightarrow> pystr \<Rightarrow> world \<Rightarrow> world \<times> error option" where
  "ensure_wav E flac_file wav_file w =
     (if \<not> path_exists w wav_file
      then transformer_build E SAMPLE_RATE flac_file wav_file w
      else (w, None))"

text \<open>
  Lines 128 to 152, the body of the loop over the lines of a transcript file. The result
  is the world after the line and either the error the line dies of or the row it adds to
  \<^verbatim>\<open>files\<close>; it is \<open>None\<close> when the normalisation does not return.
\<close>

definition process_line ::
  "env \<Rightarrow> pystr \<Rightarrow> pystr \<Rightarrow> world \<Rightarrow> pystr \<Rightarrow> (world \<times> (error + row)) option" where
  "process_line E root target_dir w line =
     (let (seqid, transcript0) = parse_line line
      in case normalize_transcript (ucd E) transcript0 of
           None \<Rightarrow> None
         | Some transcript \<Rightarrow>
             Some
               (case flac_path root seqid of
                  Inl e \<Rightarrow> (w, Inl e)
                | Inr flac_file \<Rightarrow>
                    (let wav_file = wav_path target_dir seqid
                     in case ensure_wav E flac_file wav_file w of
                          (w1, Some e) \<Rightarrow> (w1, Inl e)
                        | (w1, None) \<Rightarrow>
                            (case getsize E w1 wav_file of
                               Inl e \<Rightarrow> (w1, Inl e)
                             | Inr wav_filesize \<Rightarrow>
                                 (w1, Inr (abspath (cwd w1) wav_file, wav_filesize,
                                           transcript))))))"

text \<open>
  A \<^verbatim>\<open>for\<close> loop whose body changes the world and an accumulator and may raise: the first
  error ends the loop.
\<close>

fun for_loop ::
  "(world \<Rightarrow> 'a \<Rightarrow> 'x \<Rightarrow> (world \<times> (error + 'a)) option) \<Rightarrow> 'x list \<Rightarrow> world \<Rightarrow> 'a
   \<Rightarrow> (world \<times> (error + 'a)) option" where
  "for_loop body [] w acc = Some (w, Inr acc)"
| "for_loop body (x # xs) w acc =
     (case body w acc x of
        None \<Rightarrow> None
      | Some (w1, Inl e) \<Rightarrow> Some (w1, Inl e)
      | Some (w1, Inr acc1) \<Rightarrow> for_loop body xs w1 acc1)"

text \<open>Line 126 with its body: \<^verbatim>\<open>files.append(...)\<close> for every line.\<close>

definition line_body ::
  "env \<Rightarrow> pystr \<Rightarrow> pystr \<Rightarrow> world \<Rightarrow> row list \<Rightarrow> pystr \<Rightarrow> (world \<times> (error + row list)) option"
  where
  "line_body E root target_dir w files line =
     (case process_line E root target_dir w line of
        None \<Rightarrow> None
      | Some (w1, Inl e) \<Rightarrow> Some (w1, Inl e)
      | Some (w1, Inr r) \<Rightarrow> Some (w1, Inr (files @ [r])))"

text \<open>
  Lines 124 to 126: the transcript file is opened and read line by line; the reader may
  end with an error after the lines it could decode.
\<close>

definition file_body ::
  "env \<Rightarrow> pystr \<Rightarrow> pystr \<Rightarrow> world \<Rightarrow> row list \<Rightarrow> pystr \<Rightarrow> (world \<times> (error + row list)) option"
  where
  "file_body E root target_dir w files filename =
     (let trans_filename = path_join root [filename];
          (lines, failure) = reader E trans_filename
      in case for_loop (line_body E root target_dir) lines w files of
           None \<Rightarrow> None
         | Some (w1, Inl e) \<Rightarrow> Some (w1, Inl e)
         | Some (w1, Inr files1) \<Rightarrow>
             (case failure of
                None \<Rightarrow> Some (w1, Inr files1)
              | Some e \<Rightarrow> Some (w1, Inl e)))"

text \<open>
  Lines 122 and 123: \<^verbatim>\<open>fnmatch.filter(filenames, "transcripts.txt")\<close> keeps the names equal
  to the pattern, which has no wildcard.
\<close>

definition walk_body ::
  "env \<Rightarrow> pystr \<Rightarrow> world \<Rightarrow> row list \<Rightarrow> pystr \<times> pystr list \<times> pystr list
   \<Rightarrow> (world \<times> (error + row list)) option" where
  "walk_body E target_dir w files entry =
     (case entry of
        (root, dirnames, filenames) \<Rightarrow>
          for_loop (file_body E root target_dir)
            (filter (\<lambda>f. f = lit ''transcripts.txt'') filenames) w files)"

text \<open>
  The lines the three loops visit for a source directory, each with the directory of its
  file, in the order of the walk, of the file names and of the lines.
\<close>

definition split_lines :: "env \<Rightarrow> pystr \<Rightarrow> (pystr \<times> pystr) list" where
  "split_lines E source_dir =
     concat (map (\<lambda>(root, dirnames, filenames).
                concat (map (\<lambda>filename. map (Pair root) (fst (reader E (path_join root [filename]))))
                          (filter (\<lambda>f. f = lit ''transcripts.txt'') filenames)))
             (walk E source_dir))"

text \<open>A row is the row of a line of a directory: some world has the line add it.\<close>

definition row_of_line :: "env \<Rightarrow> pystr \<Rightarrow> pystr \<times> pystr \<Rightarrow> row \<Rightarrow> bool" where
  "row_of_line E target_dir entry r \<longleftrightarrow>
     (\<exists>w w'. process_line E (fst entry) target_dir w (snd entry) = Some (w', Inr r))"

section \<open>The extractor\<close>

text \<open>
  \<^verbatim>\<open>TarFile.extractall(path)\<close> extracts the members in their order. A member goes to
  \<^verbatim>\<open>os.path.join(path, name)\<close> without its trailing separators; the directories above it
  are made when they are missing, and the member is made a directory or written as a
  file. A directory that is there already is kept; an entry of another kind in its place
  is an error.
\<close>

definition member_target :: "pystr \<Rightarrow> member \<Rightarrow> pystr" where
  "member_target path m = rev (dropWhile (\<lambda>c. c = SEP) (rev (path_join path [m_name m])))"

definition makedir :: "pystr \<Rightarrow> pystr \<Rightarrow> files \<Rightarrow> files \<times> error option" where
  "makedir c targetpath f =
     (case mkdir c targetpath f of
        (f1, e) \<Rightarrow>
          if e = Some FileExistsError \<and> stat c f1 targetpath = Inr Dir then (f1, None)
          else (f1, e))"

definition extract_member :: "pystr \<Rightarrow> pystr \<Rightarrow> files \<Rightarrow> member \<Rightarrow> files \<times> error option" where
  "extract_member c path f m =
     (let targetpath = member_target path m;
          upperdirs = fst (path_split targetpath);
          (f1, e1) = (if upperdirs \<noteq> [] \<and> \<not> os_path_exists c f upperdirs
                      then makedirs c upperdirs f
                      else (f, None))
      in case e1 of
           Some e \<Rightarrow> (f1, Some e)
         | None \<Rightarrow>
             if m_isdir m then makedir c targetpath f1
             else write_file c targetpath (m_data m) f1)"

fun extractall :: "pystr \<Rightarrow> pystr \<Rightarrow> member list \<Rightarrow> files \<Rightarrow> files \<times> error option" where
  "extractall c path [] f = (f, None)"
| "extractall c path (m # ms) f =
     (case extract_member c path f m of
        (f1, Some e) \<Rightarrow> (f1, Some e)
      | (f1, None) \<Rightarrow> extractall c path ms f1)"

text \<open>\<^verbatim>\<open>tarfile.open(archive)\<close>.\<close>

definition tarfile_open :: "env \<Rightarrow> world \<Rightarrow> pystr \<Rightarrow> error + member list" where
  "tarfile_open E w archive =
     (case stat (cwd w) (fs w) archive of
        Inl e \<Rightarrow> Inl e
      | Inr Dir \<Rightarrow> Inl IsADirectoryError
      | Inr (File d) \<Rightarrow>
          (case tar_members E d of
             None \<Rightarrow> Inl ReadError
           | Some ms \<Rightarrow> Inr ms))"

text \<open>Lines 93 to 98.\<close>

definition maybe_extract :: "env \<Rightarrow> pystr \<Rightarrow> pystr \<Rightarrow> pystr \<Rightarrow> world \<Rightarrow> world \<times> error option"
  where
  "maybe_extract E data_dir extracted_data archive w =
     (if \<not> path_exists w (path_join data_dir [extracted_data]) then
        (case tarfile_open E w archive of
           Inl e \<Rightarrow> (w, Some e)
         | Inr tar \<Rightarrow>
             (case extractall (cwd w) data_dir tar (fs w) of
                (f1, e) \<Rightarrow> (w\<lparr>fs := f1\<rparr>, e)))
      else (w, None))"

section \<open>The manifest\<close>

text \<open>
  A \<^verbatim>\<open>pandas.DataFrame\<close> of the rows with its column names, and \<^verbatim>\<open>to_csv\<close>: the records
  of the file are the record of the column names followed by one record for each row;
  with \<^verbatim>\<open>index=True\<close> every record would start with one more cell, the index of the row.
  The file is opened for writing and the text of the records is written to it; a write
  that ends without error is logged with the path and the records.
\<close>

record dataframe =
  columns :: "pystr list"
  data :: "row list"

definition row_cells :: "row \<Rightarrow> cell list" where
  "row_cells r = (case r of (wav_filename, wav_filesize, transcript) \<Rightarrow>
     [Text wav_filename, Number wav_filesize, Text transcript])"

definition csv_records :: "bool \<Rightarrow> dataframe \<Rightarrow> cell list list" where
  "csv_records index df =
     ((if index then [Text []] else []) @ map Text (columns df))
     # map (\<lambda>(i, r). (if index then [Number i] else []) @ row_cells r)
         (enumerate 0 (data df))"

definition to_csv :: "env \<Rightarrow> dataframe \<Rightarrow> pystr \<Rightarrow> bool \<Rightarrow> world \<Rightarrow> world \<times> error option" where
  "to_csv E df path index w =
     (let records = csv_records index df;
          (text, failure) = csv_text E records
      in case write_file (cwd w) path text (fs w) of
           (f1, Some e) \<Rightarrow> (w, Some e)
         | (f1, None) \<Rightarrow>
             (case failure of
                Some e \<Rightarrow> (w\<lparr>fs := f1\<rparr>, Some e)
              | None \<Rightarrow> (w\<lparr>fs := f1, csvs := csvs w @ [(path, records)]\<rparr>, None)))"

section \<open>The two stages of the script\<close>

text \<open>Lines 101 to 156.\<close>

definition convert_audio_and_split_sentences ::
  "env \<Rightarrow> pystr \<Rightarrow> pystr \<Rightarrow> pystr \<Rightarrow> world \<Rightarrow> (world \<times> (error + dataframe)) option" where
  "convert_audio_and_split_sentences E extracted_dir data_set dest_dir w =
     (let source_dir = path_join extracted_dir [data_set];
          target_dir = path_join extracted_dir [dest_dir];
          (f0, e0) = (if \<not> path_exists w target_dir then makedirs (cwd w) target_dir (fs w)
                      else (fs w, None))
      in case e0 of
           Some e \<Rightarrow> Some (w\<lparr>fs := f0\<rparr>, Inl e)
         | None \<Rightarrow>
             (case for_loop (walk_body E target_dir) (walk E source_dir) (w\<lparr>fs := f0\<rparr>) [] of
                None \<Rightarrow> None
              | Some (w1, Inl e) \<Rightarrow> Some (w1, Inl e)
              | Some (w1, Inr files) \<Rightarrow>
                  Some (w1, Inr \<lparr>columns = [lit ''wav_filename'', lit ''wav_filesize'',
                                            lit ''transcript''],
                                 data = files\<rparr>)))"

text \<open>Lines 20 to 90; the progress bars and the messages are left out.\<close>

definition download_and_preprocess_data ::
  "env \<Rightarrow> pystr \<Rightarrow> pystr \<Rightarrow> world \<Rightarrow> (world \<times> error option) option" where
  "download_and_preprocess_data E data_dir language w =
     (let MLS_URL = lit ''https://dl.fbaipublicfiles.com/mls/mls_'' @ language @ lit ''.tar.gz'';
          mls = lit ''mls_'' @ language
      in case maybe_download E (snd (path_split MLS_URL)) data_dir MLS_URL w of
           (w1, Inl e) \<Rightarrow> Some (w1, Some e)
         | (w1, Inr mls_all) \<Rightarrow>
         (case maybe_extract E data_dir (lit ''MLS'') mls_all w1 of
           (w2, Some e) \<Rightarrow> Some (w2, Some e)
         | (w2, None) \<Rightarrow>
         (case convert_audio_and_split_sentences E data_dir
                 (path_join mls [lit ''train'']) (path_join mls [lit ''train-wav'']) w2 of
           None \<Rightarrow> None
         | Some (w3, Inl e) \<Rightarrow> Some (w3, Some e)
         | Some (w3, Inr train) \<Rightarrow>
         (case convert_audio_and_split_sentences E data_dir
                 (path_join mls [lit ''test'']) (path_join mls [lit ''test-wav'']) w3 of
           None \<Rightarrow> None
         | Some (w4, Inl e) \<Rightarrow> Some (w4, Some e)
         | Some (w4, Inr test) \<Rightarrow>
         (case convert_audio_and_split_sentences E data_dir
                 (path_join mls [lit ''dev'']) (path_join mls [lit ''dev-wav'']) w4 of
           None \<Rightarrow> None
         | Some (w5, Inl e) \<Rightarrow> Some (w5, Some e)
         | Some (w5, Inr dev) \<Rightarrow>
         (case to_csv E train
                 (path_join data_dir [lit ''mls-'' @ language @ lit ''-train.csv'']) False w5 of
           (w6, Some e) \<Rightarrow> Some (w6, Some e)
         | (w6, None) \<Rightarrow>
         (case to_csv E test
                 (path_join data_dir [lit ''mls-'' @ language @ lit ''-test.csv'']) False w6 of
           (w7, Some e) \<Rightarrow> Some (w7, Some e)
         | (w7, None) \<Rightarrow>
             Some (to_csv E dev
                     (path_join data_dir [lit ''mls-'' @ language @ lit ''-dev.csv'']) False
                     w7))))))))"

section \<open>A small instance\<close>

text \<open>
  A stand-in for sox and one for the text of a CSV file (cells between commas, a line for
  each record, numbers in decimal), the walks of three splits, of which \<^verbatim>\<open>train\<close> has one
  transcript file of two equal lines, \<^verbatim>\<open>test\<close> is missing and \<^verbatim>\<open>dev\<close> has no transcript
  file, an archive of two members, and a world in which the data directory holds the
  archive, the marker, one FLAC file and one WAV file already converted.
\<close>

function decimal :: "nat \<Rightarrow> pystr" where
  "decimal n = (if n < 10 then [48 + n] else decimal (n div 10) @ [48 + n mod 10])"
  by pat_completeness auto
termination
  by (relation "measure id") auto

declare decimal.simps [simp del]

fun comma_join :: "pystr list \<Rightarrow> pystr" where
  "comma_join [] = []"
| "comma_join [c] = c"
| "comma_join (c # cs) = c @ [44] @ comma_join cs"

definition cell_text :: "cell \<Rightarrow> pystr" where
  "cell_text c = (case c of Text t \<Rightarrow> t | Number n \<Rightarrow> decimal n)"

definition csv_sample :: "cell list list \<Rightarrow> nat list \<times> error option" where
  "csv_sample records =
     (concat (map (\<lambda>rec. comma_join (map cell_text rec) @ [10]) records), None)"

definition line_new :: pystr where
  "line_new = lit ''1_2_0'' @ [TAB] @ lit ''Hello World'' @ [10]"

definition line_done :: pystr where
  "line_done = lit ''1_2_1'' @ [TAB] @ lit ''Hello'' @ [10]"

definition tar_sample :: "member list" where
  "tar_sample =
     [\<lparr>m_name = lit ''mls_en'', m_isdir = True, m_data = []\<rparr>,
      \<lparr>m_name = lit ''mls_en/train/transcripts.txt'', m_isdir = False, m_data = lit ''1_2_0''\<rparr>]"

definition env_sample :: env where
  "env_sample =
     \<lparr> ucd = ucd_sample,
       sox = (\<lambda>rate input output w.
                case stat (cwd w) (fs w) input of
                  Inr (File d) \<Rightarrow> if d = [] then None else Some (lit ''RIFF'' @ d)
                | _ \<Rightarrow> None),
       walk = (\<lambda>top. if top = lit ''data/mls_en/train''
                 then [(lit ''data/mls_en/train'', [lit ''audio''],
                          [lit ''segments.txt'', lit ''transcripts.txt'']),
                       (lit ''data/mls_en/train/audio'', [lit ''1''], [])]
                 else if top = lit ''data/mls_en/dev''
                 then [(lit ''data/mls_en/dev'', [], [lit ''segments.txt''])]
                 else []),
       reader = (\<lambda>p. if p = lit ''data/mls_en/train/transcripts.txt''
                 then ([line_new, line_new], None)
                 else ([], None)),
       tar_members = (\<lambda>d. if d = [31, 139]
                 then Some tar_sample else None),
       dir_size = 4096,
       maybe_download = (\<lambda>filename dir url w. (w, Inr (path_join dir [filename]))),
       csv_text = csv_sample \<rparr>"

definition home :: key where
  "home = [lit ''home'', lit ''user'']"

definition world_sample :: world where
  "world_sample =
     \<lparr> fs = map_of
         [([lit ''home''], Dir),
          (home, Dir),
          (home @ [lit ''data''], Dir),
          (home @ [lit ''data'', lit ''mls_en.tar.gz''], File [31, 139]),
          (home @ [lit ''data'', lit ''MLS''], Dir),
          (home @ [lit ''data'', lit ''mls_en''], Dir),
          (home @ [lit ''data'', lit ''mls_en'', lit ''dev''], Dir),
          (home @ [lit ''data'', lit ''mls_en'', lit ''train''], Dir),
          (home @ [lit ''data'', lit ''mls_en'', lit ''train'', lit ''audio''], Dir),
          (home @ [lit ''data'', lit ''mls_en'', lit ''train'', lit ''audio'', lit ''1''], Dir),
          (home @ [lit ''data'', lit ''mls_en'', lit ''train'', lit ''audio'', lit ''1'', lit ''2''],
             Dir),
          (home @ [lit ''data'', lit ''mls_en'', lit ''train'', lit ''audio'', lit ''1'', lit ''2'',
                   lit ''1_2_0.flac''], File (lit ''fLaC'')),
          (home @ [lit ''data'', lit ''mls_en'', lit ''train-wav''], Dir),
          (home @ [lit ''data'', lit ''mls_en'', lit ''train-wav'', lit ''1_2_1.wav''],
             File (lit ''RIFFWAVE''))],
       cwd = lit ''/home/user'',
       builds = [],
       csvs = [] \<rparr>"

text \<open>A data directory that holds the downloaded archive and nothing else.\<close>

definition world_fresh :: world where
  "world_fresh =
     \<lparr> fs = map_of
         [([lit ''home''], Dir),
          (home, Dir),
          (home @ [lit ''data''], Dir),
          (home @ [lit ''data'', lit ''mls_en.tar.gz''], File [31, 139])],
       cwd = lit ''/home/user'',
       builds = [],
       csvs = [] \<rparr>"

section \<open>The line parser\<close>

lemma str_find_absent: "c \<notin> set s \<Longrightarrow> str_find s c = - 1"
  by (induction s) (auto simp: Let_def)

lemma str_find_present:
  "c \<in> set s \<Longrightarrow> str_find s c = int (length (takeWhile (\<lambda>x. x \<noteq> c) s))"
  by (induction s) (auto simp: Let_def str_find_absent)

lemma takeWhile_length_lt: "c \<in> set s \<Longrightarrow> length (takeWhile (\<lambda>x. x \<noteq> c) s) < length s"
  by (induction s) auto

lemma parse_line_tab:
  assumes "TAB \<in> set line"
  shows "parse_line line =
    (takeWhile (\<lambda>x. x \<noteq> TAB) line, tl (dropWhile (\<lambda>x. x \<noteq> TAB) line))"
proof -
  let ?n = "length (takeWhile (\<lambda>x. x \<noteq> TAB) line)"
  have f: "str_find line TAB = int ?n" using assms by (rule str_find_present)
  have lt: "?n < length line" using assms by (rule takeWhile_length_lt)
  have a: "slice_index line (int ?n) = ?n" using lt by (simp add: slice_index_def Let_def)
  have b: "slice_index line (int ?n + 1) = Suc ?n" using lt by (simp add: slice_index_def Let_def)
  have t: "take ?n line = takeWhile (\<lambda>x. x \<noteq> TAB) line"
    by (metis append_eq_conv_conj takeWhile_dropWhile_id)
  have d: "drop (Suc ?n) line = tl (dropWhile (\<lambda>x. x \<noteq> TAB) line)"
    by (metis append_eq_conv_conj drop_Suc takeWhile_dropWhile_id tl_drop)
  show ?thesis by (simp add: parse_line_def Let_def f a b slice_to_def slice_from_def t d)
qed

lemma parse_line_no_tab:
  assumes "TAB \<notin> set line"
  shows "parse_line line = (butlast line, line)"
proof -
  have f: "str_find line TAB = - 1" using assms by (rule str_find_absent)
  have a: "slice_index line (- 1) = length line - 1"
    by (cases line) (auto simp: slice_index_def Let_def)
  have b: "slice_index line 0 = 0" by (simp add: slice_index_def)
  show ?thesis by (simp add: parse_line_def f a b slice_to_def slice_from_def butlast_conv_take)
qed

text \<open>
  C4. A line that contains a tab is split at its first tab: the identifier holds no tab,
  and the identifier, a tab and the raw transcript, put together again, are the line.
\<close>

theorem parse_line_rejoin:
  "TAB \<in> set line \<Longrightarrow>
     TAB \<notin> set (fst (parse_line line)) \<and>
     fst (parse_line line) @ [TAB] @ snd (parse_line line) = line"
proof -
  assume h: "TAB \<in> set line"
  then have "dropWhile (\<lambda>x. x \<noteq> TAB) line \<noteq> []" by simp
  moreover have "hd (dropWhile (\<lambda>x. x \<noteq> TAB) line) = TAB"
    using h by (metis (mono_tags, lifting) dropWhile_eq_Nil_conv hd_dropWhile)
  ultimately have "dropWhile (\<lambda>x. x \<noteq> TAB) line = TAB # tl (dropWhile (\<lambda>x. x \<noteq> TAB) line)"
    by (metis list.collapse)
  then have "takeWhile (\<lambda>x. x \<noteq> TAB) line @ TAB # tl (dropWhile (\<lambda>x. x \<noteq> TAB) line) = line"
    by (metis takeWhile_dropWhile_id)
  moreover have "TAB \<notin> set (takeWhile (\<lambda>x. x \<noteq> TAB) line)"
    using set_takeWhileD by fastforce
  ultimately show ?thesis using h by (simp add: parse_line_tab)
qed

theorem parse_line_rejoin_witness:
  "TAB \<in> set (lit ''1_2_0'' @ [TAB] @ lit ''hello'') \<and>
   fst (parse_line (lit ''1_2_0'' @ [TAB] @ lit ''hello'')) = lit ''1_2_0'' \<and>
   snd (parse_line (lit ''1_2_0'' @ [TAB] @ lit ''hello'')) = lit ''hello'' \<and>
   fst (parse_line (lit ''1_2_0'' @ [TAB] @ lit ''hello'')) @ [TAB]
     @ snd (parse_line (lit ''1_2_0'' @ [TAB] @ lit ''hello''))
   = lit ''1_2_0'' @ [TAB] @ lit ''hello''"
  using parse_line_rejoin [of "lit ''1_2_0'' @ [TAB] @ lit ''hello''"]
  by (simp add: parse_line_def lit_def TAB_def slice_to_def slice_from_def slice_index_def)

section \<open>Identifiers without underscore\<close>

lemma str_split_no_sep: "c \<notin> set s \<Longrightarrow> str_split c s = [s]"
  by (induction s) auto

lemma str_split_not_Nil: "str_split c s \<noteq> []"
  by (induction s) (auto split: list.splits)

lemma str_split_sep: "c \<in> set s \<Longrightarrow> 2 \<le> length (str_split c s)"
proof (induction s)
  case Nil
  then show ?case by simp
next
  case (Cons x xs)
  show ?case
  proof (cases "x = c")
    case True
    then show ?thesis using str_split_not_Nil [of c xs] by (cases "str_split c xs") auto
  next
    case False
    then have "c \<in> set xs" using Cons.prems by simp
    then have "2 \<le> length (str_split c xs)" by (rule Cons.IH)
    then show ?thesis using False by (cases "str_split c xs") auto
  qed
qed

lemma str_split_hd: "hd (str_split c s) = takeWhile (\<lambda>x. x \<noteq> c) s"
  using str_split_not_Nil [of c] by (induction s) (auto split: list.splits)

lemma flac_path_no_underscore:
  "UNDERSCORE \<notin> set seqid \<Longrightarrow> flac_path root seqid = Inl IndexError"
  by (simp add: flac_path_def str_split_no_sep py_index_def)

lemma flac_path_underscore:
  "UNDERSCORE \<in> set seqid \<Longrightarrow>
   flac_path root seqid =
     Inr (path_join root [lit ''audio'', str_split UNDERSCORE seqid ! 0,
            str_split UNDERSCORE seqid ! 1, seqid @ lit ''.flac''])"
  using str_split_sep [of UNDERSCORE seqid] str_split_not_Nil [of UNDERSCORE seqid]
  by (simp add: flac_path_def py_index_def Let_def)

text \<open>
  C10. When the identifier parsed from a line has no underscore, the path of the source
  audio is not derived: \<^verbatim>\<open>split_seq[1]\<close> raises an index error. Such a line never gives a
  row, and it dies of the index error as soon as the normalisation has returned.
\<close>

theorem no_underscore_index_error:
  "UNDERSCORE \<notin> set (fst (parse_line line)) \<Longrightarrow>
     flac_path root (fst (parse_line line)) = Inl IndexError \<and>
     process_line E root target_dir w line \<noteq> Some (w', Inr r) \<and>
     (normalize_transcript (ucd E) (snd (parse_line line)) \<noteq> None \<longrightarrow>
        process_line E root target_dir w line = Some (w, Inl IndexError))"
proof -
  assume "UNDERSCORE \<notin> set (fst (parse_line line))"
  then have f: "flac_path root (fst (parse_line line)) = Inl IndexError"
    by (rule flac_path_no_underscore)
  have "process_line E root target_dir w line \<noteq> Some (w', Inr r)"
    using f by (auto simp: process_line_def split_beta split: option.splits)
  moreover have "normalize_transcript (ucd E) (snd (parse_line line)) \<noteq> None \<longrightarrow>
         process_line E root target_dir w line = Some (w, Inl IndexError)"
    using f by (auto simp: process_line_def split_beta split: option.splits)
  ultimately show ?thesis using f by blast
qed

lemma normalize_hello:
  "normalize_transcript ucd_sample (lit ''Hello World'' @ [10]) = Some (lit ''hello world'')"
  by (simp add: normalize_transcript_def unicodedata_normalize_def nfd_nfkd_def
      decompose_stack.simps ucd_sample_def hangul_syllable_def canonical_sort_def sort_step_def
      lit_def utf8_encode_ignore_def utf8_encode_char_def str_lower_def lower_ucs4_def
      strip_def lstrip_def rstrip_def isspace_def)

theorem no_underscore_index_error_witness:
  "UNDERSCORE \<notin> set (fst (parse_line (lit ''120'' @ [TAB] @ lit ''Hello World'' @ [10]))) \<and>
   flac_path (lit ''data/mls_en/train'') (fst (parse_line (lit ''120'' @ [TAB] @ lit ''Hello World'' @ [10])))
     = Inl IndexError \<and>
   process_line env_sample (lit ''data/mls_en/train'') (lit ''data/mls_en/train-wav'') world_sample
       (lit ''120'' @ [TAB] @ lit ''Hello World'' @ [10])
     = Some (world_sample, Inl IndexError)"
proof -
  have p: "parse_line (lit ''120'' @ [TAB] @ lit ''Hello World'' @ [10])
      = (lit ''120'', lit ''Hello World'' @ [10])"
    by (simp add: parse_line_def lit_def TAB_def slice_to_def slice_from_def slice_index_def)
  have u: "UNDERSCORE \<notin> set (fst (parse_line (lit ''120'' @ [TAB] @ lit ''Hello World'' @ [10])))"
    by (subst p) (simp add: lit_def UNDERSCORE_def)
  have n: "normalize_transcript (ucd env_sample)
      (snd (parse_line (lit ''120'' @ [TAB] @ lit ''Hello World'' @ [10]))) \<noteq> None"
    by (subst p) (simp add: normalize_hello env_sample_def)
  show ?thesis
    using no_underscore_index_error [OF u, of "lit ''data/mls_en/train''" env_sample
        "lit ''data/mls_en/train-wav''" world_sample world_sample "([], 0, [])"] n u
    by blast
qed

section \<open>The layout of the source path\<close>

lemma join_step_plain:
  "p \<noteq> [] \<Longrightarrow> last p \<noteq> SEP \<Longrightarrow> b \<noteq> [] \<Longrightarrow> hd b \<noteq> SEP \<Longrightarrow> join_step p b = p @ [SEP] @ b"
  by (simp add: join_step_def)

lemma join_step_audio:
  "join_step root (lit ''audio'') \<noteq> [] \<and> last (join_step root (lit ''audio'')) \<noteq> SEP"
  by (simp add: join_step_def lit_def SEP_def)

lemma str_split_first:
  "str_split c s = c0 # c1 # rest \<Longrightarrow> c0 \<noteq> [] \<Longrightarrow> s \<noteq> [] \<and> hd s = hd c0"
  using str_split_hd [of c s] by (cases s) (auto split: if_splits)

text \<open>
  C5, as the code has it. When the first two components of the identifier are not empty
  and neither begins nor ends with the separator, the source path is the directory
  \<^verbatim>\<open>audio\<close> joined to the root, then the two components as nested directories, then the
  whole identifier with the extension \<^verbatim>\<open>.flac\<close>.
\<close>

theorem flac_path_layout:
  "str_split UNDERSCORE seqid = c0 # c1 # rest \<Longrightarrow>
   c0 \<noteq> [] \<Longrightarrow> hd c0 \<noteq> SEP \<Longrightarrow> last c0 \<noteq> SEP \<Longrightarrow>
   c1 \<noteq> [] \<Longrightarrow> hd c1 \<noteq> SEP \<Longrightarrow> last c1 \<noteq> SEP \<Longrightarrow>
   flac_path root seqid =
     Inr (path_join root [lit ''audio''] @ [SEP] @ c0 @ [SEP] @ c1 @ [SEP] @ seqid @ lit ''.flac'')"
proof -
  assume s: "str_split UNDERSCORE seqid = c0 # c1 # rest"
    and c0: "c0 \<noteq> []" "hd c0 \<noteq> SEP" "last c0 \<noteq> SEP"
    and c1: "c1 \<noteq> []" "hd c1 \<noteq> SEP" "last c1 \<noteq> SEP"
  let ?a = "join_step root (lit ''audio'')"
  have a: "?a \<noteq> []" "last ?a \<noteq> SEP" using join_step_audio by simp_all
  have 1: "join_step ?a c0 = ?a @ [SEP] @ c0"
    using a c0 by (simp add: join_step_plain)
  have 2: "join_step (?a @ [SEP] @ c0) c1 = ?a @ [SEP] @ c0 @ [SEP] @ c1"
    using c0 c1 by (simp add: join_step_plain)
  have f: "seqid @ lit ''.flac'' \<noteq> []" "hd (seqid @ lit ''.flac'') \<noteq> SEP"
    using str_split_first [OF s c0(1)] c0(2) by simp_all
  have 3: "join_step (?a @ [SEP] @ c0 @ [SEP] @ c1) (seqid @ lit ''.flac'')
      = ?a @ [SEP] @ c0 @ [SEP] @ c1 @ [SEP] @ seqid @ lit ''.flac''"
    using join_step_plain [OF _ _ f, of "?a @ [SEP] @ c0 @ [SEP] @ c1"] c1 by simp
  show ?thesis
    by (simp add: flac_path_def s py_index_def path_join_def 1) (simp add: 2 [simplified] 3 [simplified])
qed

theorem flac_path_layout_witness:
  "str_split UNDERSCORE (lit ''A_B_C'') = lit ''A'' # lit ''B'' # [lit ''C''] \<and>
   lit ''A'' \<noteq> [] \<and> hd (lit ''A'') \<noteq> SEP \<and> last (lit ''A'') \<noteq> SEP \<and>
   lit ''B'' \<noteq> [] \<and> hd (lit ''B'') \<noteq> SEP \<and> last (lit ''B'') \<noteq> SEP \<and>
   flac_path (lit ''mls/train'') (lit ''A_B_C'') = Inr (lit ''mls/train/audio/A/B/A_B_C.flac'')"
proof -
  have s: "str_split UNDERSCORE (lit ''A_B_C'') = lit ''A'' # lit ''B'' # [lit ''C'']"
    by (simp add: lit_def UNDERSCORE_def)
  have h: "lit ''A'' \<noteq> []" "hd (lit ''A'') \<noteq> SEP" "last (lit ''A'') \<noteq> SEP"
    "lit ''B'' \<noteq> []" "hd (lit ''B'') \<noteq> SEP" "last (lit ''B'') \<noteq> SEP"
    by (simp_all add: lit_def SEP_def)
  have "path_join (lit ''mls/train'') [lit ''audio''] @ [SEP] @ lit ''A'' @ [SEP] @ lit ''B''
      @ [SEP] @ lit ''A_B_C'' @ lit ''.flac'' = lit ''mls/train/audio/A/B/A_B_C.flac''"
    by (simp add: path_join_def join_step_def lit_def SEP_def)
  then show ?thesis
    using flac_path_layout [OF s h, of "lit ''mls/train''"] s h by simp
qed

text \<open>
  The identifier \<^verbatim>\<open>/a_b\<close> has two components, and the first begins with the separator:
  \<^verbatim>\<open>os.path.join\<close> starts again at the file name, and the path is not under \<^verbatim>\<open>audio\<close>.
\<close>

theorem flac_path_layout_counterexample:
  "str_split UNDERSCORE (lit ''/a_b'') = [lit ''/a'', lit ''b''] \<and>
   flac_path (lit ''mls/train'') (lit ''/a_b'') = Inr (lit ''/a_b.flac'')"
  by (simp add: flac_path_def py_index_def path_join_def join_step_def lit_def UNDERSCORE_def SEP_def)

section \<open>Resolving paths\<close>

lemma namei_append:
  "namei f cur (xs @ ys) = (case namei f cur xs of Inl e \<Rightarrow> Inl e | Inr k \<Rightarrow> namei f k ys)"
  by (induction xs arbitrary: cur) (auto split: option.splits node.splits)

lemma node_at_grows_dir: "grows f f' \<Longrightarrow> node_at f k = Some Dir \<Longrightarrow> node_at f' k = Some Dir"
  by (auto simp: grows_def node_at_def split: if_splits)

lemma node_at_grows: "grows f f' \<Longrightarrow> node_at f k \<noteq> None \<Longrightarrow> node_at f' k \<noteq> None"
  by (auto simp: grows_def node_at_def split: if_splits)

lemma namei_grows:
  "grows f f' \<Longrightarrow> namei f cur names = Inr k \<Longrightarrow> namei f' cur names = Inr k"
proof (induction names arbitrary: cur)
  case Nil
  then show ?case by simp
next
  case (Cons name names)
  from Cons.prems(2) have d: "node_at f cur = Some Dir"
    by (auto split: option.splits node.splits)
  then have d': "node_at f' cur = Some Dir" using Cons.prems(1) by (simp add: node_at_grows_dir)
  from Cons.prems(2) d have "namei f (step cur name) names = Inr k" by simp
  then have "namei f' (step cur name) names = Inr k" using Cons.prems(1) by (simp add: Cons.IH)
  then show ?case using d' by simp
qed

lemma resolve_grows: "grows f f' \<Longrightarrow> resolve c f p = Inr k \<Longrightarrow> resolve c f' p = Inr k"
  by (auto simp: resolve_def namei_grows split: if_splits)

lemma exists_grows: "grows f f' \<Longrightarrow> os_path_exists c f p \<Longrightarrow> os_path_exists c f' p"
proof -
  assume g: "grows f f'" and e: "os_path_exists c f p"
  from e obtain k where k: "resolve c f p = Inr k" and n: "node_at f k \<noteq> None"
    by (auto simp: os_path_exists_def stat_def split: sum.splits option.splits)
  have "resolve c f' p = Inr k" using g k by (rule resolve_grows)
  moreover have "node_at f' k \<noteq> None" using g n by (rule node_at_grows)
  ultimately show ?thesis by (auto simp: os_path_exists_def stat_def split: option.splits)
qed

lemma grows_refl: "grows f f"
  by (simp add: grows_def)

lemma grows_trans: "grows f g \<Longrightarrow> grows g h \<Longrightarrow> grows f h"
  by (simp add: grows_def)

lemma grows_new_dir: "f k = None \<Longrightarrow> grows f (f(k \<mapsto> Dir))"
  by (auto simp: grows_def)

lemma grows_file: "f k \<noteq> Some Dir \<Longrightarrow> grows f (f(k \<mapsto> File d))"
  by (auto simp: grows_def)

lemma str_split_butlast_last:
  "butlast (str_split c s) @ [last (str_split c s)] = str_split c s"
  using str_split_not_Nil [of c s] by simp

lemma last_str_split: "last (str_split c s) = [] \<Longrightarrow> s = [] \<or> last s = c"
proof (induction s)
  case Nil
  then show ?case by simp
next
  case (Cons x xs)
  show ?case
  proof (cases "x = c")
    case True
    then have "last (str_split c xs) = []"
      using Cons.prems str_split_not_Nil [of c xs] by simp
    then have "xs = [] \<or> last xs = c" by (rule Cons.IH)
    then show ?thesis using True by auto
  next
    case False
    obtain q qs where q: "str_split c xs = q # qs"
      using str_split_not_Nil [of c xs] by (cases "str_split c xs") auto
    have qs: "qs \<noteq> []" using Cons.prems False q by (cases qs) auto
    then have "last (str_split c xs) = []" using Cons.prems False q by simp
    then have "xs = [] \<or> last xs = c" by (rule Cons.IH)
    moreover have "xs \<noteq> []" using q qs by (cases xs) auto
    ultimately show ?thesis by simp
  qed
qed

lemma strip_sep_last: "strip_sep p = p \<Longrightarrow> p \<noteq> [] \<Longrightarrow> last p \<noteq> SEP"
proof
  assume s: "strip_sep p = p" and ne: "p \<noteq> []" and l: "last p = SEP"
  obtain x xs where r: "rev p = x # xs" using ne by (cases "rev p") auto
  have "x = SEP" using l r ne by (metis hd_rev list.sel(1))
  then have "length (dropWhile (\<lambda>c. c = SEP) (rev p)) \<le> length xs"
    using r length_dropWhile_le [of "\<lambda>c. c = SEP" xs] by simp
  then have "length (strip_sep p) < length p"
    using r by (simp add: strip_sep_def)
  then show False using s by simp
qed

lemma strip_sep_idem: "strip_sep (strip_sep p) = strip_sep p"
proof -
  have "dropWhile P (dropWhile P xs) = dropWhile P xs" for P and xs :: "'a list"
    by (induction xs) auto
  then show ?thesis by (simp add: strip_sep_def)
qed

lemma strip_sep_hd: "strip_sep p \<noteq> [] \<Longrightarrow> hd (strip_sep p) = hd p"
proof -
  assume a: "strip_sep p \<noteq> []"
  have "\<exists>zs. p = strip_sep p @ zs"
    by (metis strip_sep_def rev_append rev_rev_ident takeWhile_dropWhile_id)
  then show ?thesis using a by (metis hd_append2)
qed

lemma start_strip: "strip_sep p \<noteq> [] \<Longrightarrow> start c (strip_sep p) = start c p"
  using strip_sep_hd [of p] by (auto simp: start_def strip_sep_def)

lemma step_plain:
  "name \<noteq> [] \<Longrightarrow> name \<noteq> lit ''.'' \<Longrightarrow> name \<noteq> lit ''..'' \<Longrightarrow> step par name = par @ [name]"
  by (simp add: step_def)

lemma resolve_parent_resolve:
  assumes "resolve_parent c f p = Inr (par, name)" and "p \<noteq> []"
  shows "resolve c f p = Inr (step par name)"
proof -
  from assms(1) have n: "namei f (start c p) (butlast (str_split SEP p)) = Inr par"
    and d: "node_at f par = Some Dir" and l: "name = last (str_split SEP p)"
    by (auto simp: resolve_parent_def split: sum.splits option.splits node.splits)
  have "namei f (start c p) (butlast (str_split SEP p) @ [last (str_split SEP p)])
      = Inr (step par name)"
    using n d l by (simp add: namei_append)
  then show ?thesis using assms(2) by (simp add: resolve_def str_split_butlast_last)
qed

text \<open>A file that has been written is there, with its bytes, and nothing else has changed.\<close>

lemma write_file_ok:
  assumes "write_file c p d f = (f', None)"
  shows "\<exists>k. resolve c f p = Inr k \<and> k \<noteq> [] \<and> f k \<noteq> Some Dir \<and> f' = f(k \<mapsto> File d)"
proof -
  from assms have ne: "p \<noteq> []" and s: "strip_sep p = p"
    by (auto simp: write_file_def split: if_splits sum.splits prod.splits)
  from assms ne s obtain par name where
    r: "resolve_parent c f p = Inr (par, name)"
    and nm: "name \<noteq> lit ''.''" "name \<noteq> lit ''..''"
    and nd: "f (par @ [name]) \<noteq> Some Dir"
    and f': "f' = f(par @ [name] \<mapsto> File d)"
    by (auto simp: write_file_def split: if_splits sum.splits prod.splits)
  have "last p \<noteq> SEP" using s ne by (rule strip_sep_last)
  then have "last (str_split SEP p) \<noteq> []" using last_str_split [of SEP p] ne by auto
  moreover have "name = last (str_split SEP p)"
    using r by (auto simp: resolve_parent_def split: sum.splits option.splits node.splits)
  ultimately have "name \<noteq> []" by simp
  then have "step par name = par @ [name]" using nm by (simp add: step_plain)
  then have "resolve c f p = Inr (par @ [name])"
    using resolve_parent_resolve [OF r ne] by simp
  then show ?thesis using nd f' by auto
qed

lemma write_file_unchanged: "write_file c p d f = (f', Some e) \<Longrightarrow> f' = f"
  by (auto simp: write_file_def split: if_splits sum.splits prod.splits)

lemma write_file_grows: "write_file c p d f = (f', e) \<Longrightarrow> grows f f'"
proof (cases e)
  case None
  assume "write_file c p d f = (f', e)"
  then show ?thesis using None write_file_ok [of c p d f f'] by (auto simp: grows_file)
next
  case (Some a)
  assume "write_file c p d f = (f', e)"
  then show ?thesis using Some write_file_unchanged [of c p d f f' a] by (simp add: grows_refl)
qed

lemma write_file_frame:
  assumes "write_file c p d f = (f', e)" and "resolve c f p \<noteq> Inr k"
  shows "f' k = f k"
proof (cases e)
  case None
  then obtain k' where "resolve c f p = Inr k'" "f' = f(k' \<mapsto> File d)"
    using write_file_ok [of c p d f f'] assms(1) by blast
  then show ?thesis using assms(2) by auto
next
  case (Some a)
  then show ?thesis using write_file_unchanged [of c p d f f' a] assms(1) by simp
qed

lemma write_file_stat:
  assumes "write_file c p d f = (f', None)"
  shows "stat c f' p = Inr (File d)"
proof -
  from write_file_ok [OF assms] obtain k where
    k: "resolve c f p = Inr k" "k \<noteq> []" and f': "f' = f(k \<mapsto> File d)" by blast
  have "grows f f'" using assms by (rule write_file_grows)
  then have "resolve c f' p = Inr k" using k(1) by (rule resolve_grows)
  then show ?thesis using k(2) f' by (simp add: stat_def node_at_def)
qed

lemma write_file_key:
  assumes "write_file c p d f = (f', None)"
  shows "\<exists>par. resolve c f p = Inr (par @ [last (str_split SEP p)]) \<and>
     f' = f(par @ [last (str_split SEP p)] \<mapsto> File d)"
proof -
  from assms have ne: "p \<noteq> []" and s: "strip_sep p = p"
    by (auto simp: write_file_def split: if_splits sum.splits prod.splits)
  from assms ne s obtain par name where
    r: "resolve_parent c f p = Inr (par, name)"
    and nm: "name \<noteq> lit ''.''" "name \<noteq> lit ''..''"
    and f': "f' = f(par @ [name] \<mapsto> File d)"
    by (auto simp: write_file_def split: if_splits sum.splits prod.splits)
  have "last p \<noteq> SEP" using s ne by (rule strip_sep_last)
  then have "last (str_split SEP p) \<noteq> []" using last_str_split [of SEP p] ne by auto
  moreover have n: "name = last (str_split SEP p)"
    using r by (auto simp: resolve_parent_def split: sum.splits option.splits node.splits)
  ultimately have "name \<noteq> []" by simp
  then have "step par name = par @ [name]" using nm by (simp add: step_plain)
  then have "resolve c f p = Inr (par @ [name])"
    using resolve_parent_resolve [OF r ne] by simp
  then show ?thesis using f' n by auto
qed

lemma write_file_keeps:
  assumes "write_file c q d f = (f', None)"
    and "resolve c f p = Inr (par @ [name])" and "name \<noteq> last (str_split SEP q)"
  shows "resolve c f' p = Inr (par @ [name]) \<and> stat c f' p = stat c f p"
proof -
  from write_file_key [OF assms(1)] obtain par' where
    f': "f' = f(par' @ [last (str_split SEP q)] \<mapsto> File d)" by blast
  have "grows f f'" using assms(1) by (rule write_file_grows)
  then have r: "resolve c f' p = Inr (par @ [name])" using assms(2) by (rule resolve_grows)
  have "node_at f' (par @ [name]) = node_at f (par @ [name])"
    using f' assms(3) by (simp add: node_at_def)
  then show ?thesis using r assms(2) by (simp add: stat_def)
qed

lemma mkdir_unchanged: "mkdir c p f = (f', Some e) \<Longrightarrow> f' = f"
  by (auto simp: mkdir_def split: if_splits sum.splits prod.splits)

lemma mkdir_ok:
  assumes "mkdir c p f = (f', None)"
  shows "\<exists>k. resolve c f (strip_sep p) = Inr k \<and> k \<noteq> [] \<and> f k = None \<and> f' = f(k \<mapsto> Dir)"
proof -
  from assms have ne: "p \<noteq> []" and s: "strip_sep p \<noteq> []"
    by (auto simp: mkdir_def split: if_splits sum.splits prod.splits)
  from assms ne s obtain par name where
    r: "resolve_parent c f (strip_sep p) = Inr (par, name)"
    and nn: "node_at f (step par name) = None"
    and nm: "name \<noteq> lit ''.''" "name \<noteq> lit ''..''"
    and f': "f' = f(par @ [name] \<mapsto> Dir)"
    by (auto simp: mkdir_def split: if_splits sum.splits prod.splits)
  have "node_at f par = Some Dir"
    using r by (auto simp: resolve_parent_def split: sum.splits option.splits node.splits)
  then have "name \<noteq> []" using nn by (auto simp: step_def)
  then have st: "step par name = par @ [name]" using nm by (simp add: step_plain)
  then have "resolve c f (strip_sep p) = Inr (par @ [name])"
    using resolve_parent_resolve [OF r s] by simp
  moreover have "f (par @ [name]) = None" using nn st by (simp add: node_at_def)
  ultimately show ?thesis using f' by auto
qed

lemma mkdir_grows: "mkdir c p f = (f', e) \<Longrightarrow> grows f f'"
proof (cases e)
  case None
  assume "mkdir c p f = (f', e)"
  then show ?thesis using None mkdir_ok [of c p f f'] by (auto simp: grows_new_dir)
next
  case (Some a)
  assume "mkdir c p f = (f', e)"
  then show ?thesis using Some mkdir_unchanged [of c p f f' a] by (simp add: grows_refl)
qed

lemma makedirs_grows: "makedirs c p f = (f', e) \<Longrightarrow> grows f f'"
proof (induction c p f arbitrary: f' e rule: makedirs.induct)
  case (1 c p f)
  show ?case
  proof (cases "fst (makedirs_split p) \<noteq> [] \<and> snd (makedirs_split p) \<noteq> []
         \<and> \<not> os_path_exists c f (fst (makedirs_split p))")
    case False
    then have "mkdir c p f = (f', e)" using "1.prems" by (subst (asm) makedirs.simps) auto
    then show ?thesis by (rule mkdir_grows)
  next
    case True
    obtain f1 e1 where r: "makedirs c (fst (makedirs_split p)) f = (f1, e1)"
      by (cases "makedirs c (fst (makedirs_split p)) f") auto
    have f1: "grows f f1" using "1.IH" [OF True r] .
    have "(if e1 \<noteq> None \<and> e1 \<noteq> Some FileExistsError then (f1, e1)
           else if snd (makedirs_split p) = lit ''.'' then (f1, None)
           else mkdir c p f1) = (f', e)"
      using "1.prems" True r by (subst (asm) makedirs.simps) auto
    then have "f' = f1 \<or> mkdir c p f1 = (f', e)" by (auto split: if_splits)
    then show ?thesis using f1 mkdir_grows [of c p f1 f' e] grows_trans [of f f1 f'] by auto
  qed
qed

section \<open>Conversion and rows\<close>

lemma getsize_exists: "path_exists w p \<Longrightarrow> \<exists>n. getsize E w p = Inr n"
  by (auto simp: path_exists_def os_path_exists_def getsize_def split: sum.splits node.splits)

lemma ensure_wav_exists: "path_exists w wav \<Longrightarrow> ensure_wav E flac wav w = (w, None)"
  by (simp add: ensure_wav_def)

lemma build_cases:
  "(\<exists>e. transformer_build E rate flac wav w
          = (w\<lparr>builds := builds w @ [(flac, wav, rate)]\<rparr>, Some e)) \<or>
   (\<exists>out f1. write_file (cwd w) wav out (fs w) = (f1, None) \<and>
      transformer_build E rate flac wav w
          = (w\<lparr>builds := builds w @ [(flac, wav, rate)], fs := f1\<rparr>, None))"
  by (auto simp: transformer_build_def Let_def split: option.splits prod.splits)

lemma build_builds:
  "builds (fst (transformer_build E rate flac wav w)) = builds w @ [(flac, wav, rate)]"
  using build_cases [of E rate flac wav w] by auto

lemma build_rest:
  "cwd (fst (transformer_build E rate flac wav w)) = cwd w \<and>
   csvs (fst (transformer_build E rate flac wav w)) = csvs w"
  using build_cases [of E rate flac wav w] by auto

lemma build_frame:
  "resolve (cwd w) (fs w) wav \<noteq> Inr k \<Longrightarrow> fs (fst (transformer_build E rate flac wav w)) k = fs w k"
  using build_cases [of E rate flac wav w] write_file_frame [of "cwd w" wav _ "fs w" _ None k]
  by auto

lemma build_grows: "grows (fs w) (fs (fst (transformer_build E rate flac wav w)))"
  using build_cases [of E rate flac wav w] write_file_grows [of "cwd w" wav _ "fs w"]
  by (auto simp: grows_refl)

lemma build_ok_exists:
  "transformer_build E rate flac wav w = (w1, None) \<Longrightarrow> path_exists w1 wav"
  using build_cases [of E rate flac wav w] write_file_stat [of "cwd w" wav _ "fs w"]
  by (auto simp: path_exists_def os_path_exists_def)

lemma ensure_wav_ok_exists: "ensure_wav E flac wav w = (w1, None) \<Longrightarrow> path_exists w1 wav"
  by (auto simp: ensure_wav_def build_ok_exists split: if_splits)

lemma ensure_wav_builds:
  "builds (fst (ensure_wav E flac wav w)) =
     builds w @ (if path_exists w wav then [] else [(flac, wav, SAMPLE_RATE)])"
  by (simp add: ensure_wav_def build_builds)

lemma ensure_wav_frame:
  "resolve (cwd w) (fs w) wav \<noteq> Inr k \<Longrightarrow> fs (fst (ensure_wav E flac wav w)) k = fs w k"
  by (simp add: ensure_wav_def build_frame)

lemma ensure_wav_rest:
  "cwd (fst (ensure_wav E flac wav w)) = cwd w \<and> csvs (fst (ensure_wav E flac wav w)) = csvs w"
  by (simp add: ensure_wav_def build_rest)

lemma ensure_wav_grows: "grows (fs w) (fs (fst (ensure_wav E flac wav w)))"
  by (simp add: ensure_wav_def build_grows grows_refl)

lemma process_line_cases:
  assumes "process_line E root target_dir w line = Some (w', r)"
  shows "(\<exists>e. flac_path root (fst (parse_line line)) = Inl e \<and> w' = w \<and> r = Inl e) \<or>
         (\<exists>flac. flac_path root (fst (parse_line line)) = Inr flac \<and>
            w' = fst (ensure_wav E flac (wav_path target_dir (fst (parse_line line))) w))"
  using assms
  by (auto simp: process_line_def split_beta Let_def
      split: option.splits sum.splits prod.splits)

lemma process_line_row:
  assumes "process_line E root target_dir w line = Some (w', Inr r)"
  shows "\<exists>flac t n. flac_path root (fst (parse_line line)) = Inr flac \<and>
      ensure_wav E flac (wav_path target_dir (fst (parse_line line))) w = (w', None) \<and>
      normalize_transcript (ucd E) (snd (parse_line line)) = Some t \<and>
      getsize E w' (wav_path target_dir (fst (parse_line line))) = Inr n \<and>
      r = (abspath (cwd w') (wav_path target_dir (fst (parse_line line))), n, t)"
  using assms
  by (auto simp: process_line_def split_beta Let_def prod_eq_iff
      split: option.splits sum.splits prod.splits)

lemma process_line_row_iff:
  "(\<exists>w' r. process_line E root target_dir w line = Some (w', Inr r)) \<longleftrightarrow>
     normalize_transcript (ucd E) (snd (parse_line line)) \<noteq> None \<and>
     (\<exists>flac. flac_path root (fst (parse_line line)) = Inr flac \<and>
        snd (ensure_wav E flac (wav_path target_dir (fst (parse_line line))) w) = None)"
proof
  assume "\<exists>w' r. process_line E root target_dir w line = Some (w', Inr r)"
  then obtain w' r where "process_line E root target_dir w line = Some (w', Inr r)" by blast
  from process_line_row [OF this]
  show "normalize_transcript (ucd E) (snd (parse_line line)) \<noteq> None \<and>
     (\<exists>flac. flac_path root (fst (parse_line line)) = Inr flac \<and>
        snd (ensure_wav E flac (wav_path target_dir (fst (parse_line line))) w) = None)"
    by auto
next
  assume "normalize_transcript (ucd E) (snd (parse_line line)) \<noteq> None \<and>
     (\<exists>flac. flac_path root (fst (parse_line line)) = Inr flac \<and>
        snd (ensure_wav E flac (wav_path target_dir (fst (parse_line line))) w) = None)"
  then obtain t flac where n: "normalize_transcript (ucd E) (snd (parse_line line)) = Some t"
    and f: "flac_path root (fst (parse_line line)) = Inr flac"
    and e: "snd (ensure_wav E flac (wav_path target_dir (fst (parse_line line))) w) = None"
    by auto
  obtain w1 where w1: "ensure_wav E flac (wav_path target_dir (fst (parse_line line))) w = (w1, None)"
    using e by (cases "ensure_wav E flac (wav_path target_dir (fst (parse_line line))) w") auto
  then have "path_exists w1 (wav_path target_dir (fst (parse_line line)))"
    by (rule ensure_wav_ok_exists)
  then obtain k where k: "getsize E w1 (wav_path target_dir (fst (parse_line line))) = Inr k"
    using getsize_exists by blast
  show "\<exists>w' r. process_line E root target_dir w line = Some (w', Inr r)"
    using n f w1 k by (simp add: process_line_def split_beta Let_def)
qed

lemma process_line_there:
  assumes "flac_path root (fst (parse_line line)) = Inr flac"
    and "path_exists w (wav_path target_dir (fst (parse_line line)))"
  shows "\<exists>n. getsize E w (wav_path target_dir (fst (parse_line line))) = Inr n \<and>
     process_line E root target_dir w line =
       map_option (\<lambda>t. (w, Inr (abspath (cwd w) (wav_path target_dir (fst (parse_line line))), n, t)))
         (normalize_transcript (ucd E) (snd (parse_line line)))"
proof -
  obtain n where n: "getsize E w (wav_path target_dir (fst (parse_line line))) = Inr n"
    using getsize_exists [OF assms(2)] by blast
  have "process_line E root target_dir w line =
       map_option (\<lambda>t. (w, Inr (abspath (cwd w) (wav_path target_dir (fst (parse_line line))), n, t)))
         (normalize_transcript (ucd E) (snd (parse_line line)))"
    using assms n
    by (simp add: process_line_def split_beta Let_def ensure_wav_exists split: option.splits)
  then show ?thesis using n by blast
qed

lemmas sample_simps =
  process_line_def parse_line_def slice_to_def slice_from_def slice_index_def
  normalize_transcript_def unicodedata_normalize_def nfd_nfkd_def
  decompose_stack.simps ucd_sample_def hangul_syllable_def canonical_sort_def sort_step_def
  lit_def utf8_encode_ignore_def utf8_encode_char_def str_lower_def lower_ucs4_def
  strip_def lstrip_def rstrip_def isspace_def TAB_def UNDERSCORE_def SEP_def
  flac_path_def py_index_def path_join_def join_step_def wav_path_def ensure_wav_def
  path_exists_def os_path_exists_def stat_def resolve_def start_def step_def node_at_def
  resolve_parent_def write_file_def strip_sep_def path_split_def home_def
  world_sample_def env_sample_def transformer_build_def SAMPLE_RATE_def
  getsize_def abspath_def normpath_def initial_slashes_def Let_def

lemma sample_line_there:
  "process_line env_sample (lit ''data/mls_en/train'') (lit ''data/mls_en/train-wav'') world_sample
     line_done
   = Some (world_sample,
       Inr (lit ''/home/user/data/mls_en/train-wav/1_2_1.wav'', 8, lit ''hello''))"
  by (simp add: sample_simps line_new_def line_done_def)

lemma sample_line_missing:
  "process_line env_sample (lit ''data/mls_en/train'') (lit ''data/mls_en/train-wav'') world_sample
     line_new
   = Some (world_sample
             \<lparr>fs := (fs world_sample)
                (home @ [lit ''data'', lit ''mls_en'', lit ''train-wav'', lit ''1_2_0.wav'']
                   \<mapsto> File (lit ''RIFFfLaC'')),
              builds := [(lit ''data/mls_en/train/audio/1/2/1_2_0.flac'',
                          lit ''data/mls_en/train-wav/1_2_0.wav'', 16000)]\<rparr>,
           Inr (lit ''/home/user/data/mls_en/train-wav/1_2_0.wav'', 8, lit ''hello world''))"
  by (simp add: sample_simps line_new_def line_done_def)

text \<open>
  C3, as the code has it. A line with no tab is not refused: \<^verbatim>\<open>find\<close> gives \<open>-1\<close>, so the
  identifier is the line without its last character and the raw transcript the whole
  line, and the line is processed like any other. It gives a row exactly when the
  normalisation returns, the identifier has an underscore, so that the source path is
  derived, and lines 146 to 149 raise nothing: the WAV file is there, or the conversion
  of the file at the derived path to the WAV file raises nothing. Without an underscore
  the line dies of the index error. With an underscore and the WAV file there, the row is
  the absolute path of the WAV file, its size and the normalised line, and the world is
  left as it was.
\<close>

theorem no_tab_line:
  "TAB \<notin> set line \<Longrightarrow>
     parse_line line = (butlast line, line) \<and>
     ((\<exists>w' r. process_line E root target_dir w line = Some (w', Inr r)) \<longleftrightarrow>
        normalize_transcript (ucd E) line \<noteq> None \<and>
        (\<exists>flac. flac_path root (butlast line) = Inr flac \<and>
           (path_exists w (wav_path target_dir (butlast line)) \<or>
            snd (transformer_build E SAMPLE_RATE flac (wav_path target_dir (butlast line)) w)
              = None))) \<and>
     ((\<exists>flac. flac_path root (butlast line) = Inr flac) \<longleftrightarrow> UNDERSCORE \<in> set (butlast line)) \<and>
     (UNDERSCORE \<in> set (butlast line) \<and> path_exists w (wav_path target_dir (butlast line)) \<longrightarrow>
        (\<exists>n. getsize E w (wav_path target_dir (butlast line)) = Inr n \<and>
           process_line E root target_dir w line =
             map_option
               (\<lambda>t. (w, Inr (abspath (cwd w) (wav_path target_dir (butlast line)), n, t)))
               (normalize_transcript (ucd E) line)))"
proof -
  assume h: "TAB \<notin> set line"
  have p: "parse_line line = (butlast line, line)" using h by (rule parse_line_no_tab)
  have 1: "(\<exists>w' r. process_line E root target_dir w line = Some (w', Inr r)) \<longleftrightarrow>
        normalize_transcript (ucd E) line \<noteq> None \<and>
        (\<exists>flac. flac_path root (butlast line) = Inr flac \<and>
           (path_exists w (wav_path target_dir (butlast line)) \<or>
            snd (transformer_build E SAMPLE_RATE flac (wav_path target_dir (butlast line)) w)
              = None))"
    using process_line_row_iff [of E root target_dir w line] p
    by (auto simp: ensure_wav_def)
  have 2: "(\<exists>flac. flac_path root (butlast line) = Inr flac) \<longleftrightarrow> UNDERSCORE \<in> set (butlast line)"
    using flac_path_underscore [of "butlast line" root]
      flac_path_no_underscore [of "butlast line" root]
    by (cases "UNDERSCORE \<in> set (butlast line)") auto
  have 3: "\<exists>n. getsize E w (wav_path target_dir (butlast line)) = Inr n \<and>
           process_line E root target_dir w line =
             map_option
               (\<lambda>t. (w, Inr (abspath (cwd w) (wav_path target_dir (butlast line)), n, t)))
               (normalize_transcript (ucd E) line)"
    if u: "UNDERSCORE \<in> set (butlast line)"
      and e: "path_exists w (wav_path target_dir (butlast line))"
  proof -
    obtain flac where f: "flac_path root (fst (parse_line line)) = Inr flac"
      using u 2 p by auto
    show ?thesis
      using process_line_there [OF f, of w target_dir E] e p by simp
  qed
  show ?thesis using p 1 2 3 by blast
qed

theorem no_tab_line_witness:
  "TAB \<notin> set (lit ''1_2_0'' @ [10]) \<and>
   parse_line (lit ''1_2_0'' @ [10]) = (lit ''1_2_0'', lit ''1_2_0'' @ [10]) \<and>
   UNDERSCORE \<in> set (butlast (lit ''1_2_0'' @ [10])) \<and>
   flac_path (lit ''data/mls_en/train'') (butlast (lit ''1_2_0'' @ [10]))
     = Inr (lit ''data/mls_en/train/audio/1/2/1_2_0.flac'') \<and>
   \<not> path_exists world_sample
       (wav_path (lit ''data/mls_en/train-wav'') (butlast (lit ''1_2_0'' @ [10]))) \<and>
   snd (transformer_build env_sample SAMPLE_RATE (lit ''data/mls_en/train/audio/1/2/1_2_0.flac'')
          (wav_path (lit ''data/mls_en/train-wav'') (butlast (lit ''1_2_0'' @ [10]))) world_sample)
     = None \<and>
   map_option snd
     (process_line env_sample (lit ''data/mls_en/train'') (lit ''data/mls_en/train-wav'')
        world_sample (lit ''1_2_0'' @ [10]))
   = Some (Inr (lit ''/home/user/data/mls_en/train-wav/1_2_0.wav'', 8, lit ''1_2_0''))"
proof -
  have r: "map_option snd
     (process_line env_sample (lit ''data/mls_en/train'') (lit ''data/mls_en/train-wav'')
        world_sample (lit ''1_2_0'' @ [10]))
   = Some (Inr (lit ''/home/user/data/mls_en/train-wav/1_2_0.wav'', 8, lit ''1_2_0''))"
    by (simp add: sample_simps)
  have b: "snd (transformer_build env_sample SAMPLE_RATE
          (lit ''data/mls_en/train/audio/1/2/1_2_0.flac'')
          (wav_path (lit ''data/mls_en/train-wav'') (butlast (lit ''1_2_0'' @ [10]))) world_sample)
     = None"
    by (simp add: sample_simps)
  have e: "\<not> path_exists world_sample
       (wav_path (lit ''data/mls_en/train-wav'') (butlast (lit ''1_2_0'' @ [10])))"
    by (simp add: sample_simps)
  have f: "flac_path (lit ''data/mls_en/train'') (butlast (lit ''1_2_0'' @ [10]))
     = Inr (lit ''data/mls_en/train/audio/1/2/1_2_0.flac'')"
    by (simp add: sample_simps)
  have t: "TAB \<notin> set (lit ''1_2_0'' @ [10])" by (simp add: lit_def TAB_def)
  have "parse_line (lit ''1_2_0'' @ [10]) = (butlast (lit ''1_2_0'' @ [10]), lit ''1_2_0'' @ [10])
      \<and> UNDERSCORE \<in> set (butlast (lit ''1_2_0'' @ [10]))"
    using no_tab_line [OF t, of env_sample "lit ''data/mls_en/train''"
        "lit ''data/mls_en/train-wav''" world_sample] f
    by blast
  then show ?thesis using t r b e f by (simp add: lit_def)
qed

text \<open>
  The line \<^verbatim>\<open>1_2_1\<close> with its newline and no tab, when the WAV file of \<^verbatim>\<open>1_2_1\<close> is there:
  the newline is cut off the identifier, nothing is converted, and a row is recorded with
  the identifier as its transcript.
\<close>

theorem no_tab_line_counterexample:
  "TAB \<notin> set (lit ''1_2_1'' @ [10]) \<and>
   process_line env_sample (lit ''data/mls_en/train'') (lit ''data/mls_en/train-wav'')
     world_sample (lit ''1_2_1'' @ [10])
   = Some (world_sample,
       Inr (lit ''/home/user/data/mls_en/train-wav/1_2_1.wav'', 8, lit ''1_2_1''))"
  by (simp add: sample_simps)

text \<open>
  C6. A line whose WAV file is there leaves the world as it was: no conversion, no
  file written. When the path of the FLAC file has been derived, sox is asked for exactly
  one conversion, to that WAV file at 16000 Hz, if the WAV file was missing, and for none
  if it was there. No other entry of the file system than that of the WAV file is
  touched.
\<close>

theorem transcode_only_when_missing:
  "process_line E root target_dir w line = Some (w', r) \<Longrightarrow>
   wav = wav_path target_dir (fst (parse_line line)) \<Longrightarrow>
     (path_exists w wav \<longrightarrow> w' = w) \<and>
     (flac_path root (fst (parse_line line)) = Inr flac \<longrightarrow>
        builds w' = builds w @ (if path_exists w wav then [] else [(flac, wav, 16000)])) \<and>
     (\<forall>k. resolve (cwd w) (fs w) wav \<noteq> Inr k \<longrightarrow> fs w' k = fs w k)"
proof -
  assume p: "process_line E root target_dir w line = Some (w', r)"
    and wav: "wav = wav_path target_dir (fst (parse_line line))"
  from process_line_cases [OF p]
  show ?thesis
  proof
    assume "\<exists>e. flac_path root (fst (parse_line line)) = Inl e \<and> w' = w \<and> r = Inl e"
    then show ?thesis by auto
  next
    assume "\<exists>flac. flac_path root (fst (parse_line line)) = Inr flac \<and>
            w' = fst (ensure_wav E flac (wav_path target_dir (fst (parse_line line))) w)"
    then obtain f where f: "flac_path root (fst (parse_line line)) = Inr f"
      and w': "w' = fst (ensure_wav E f wav w)" using wav by auto
    have 1: "path_exists w wav \<longrightarrow> w' = w" using w' by (simp add: ensure_wav_exists)
    have 2: "flac_path root (fst (parse_line line)) = Inr flac \<longrightarrow>
        builds w' = builds w @ (if path_exists w wav then [] else [(flac, wav, 16000)])"
      using f w' ensure_wav_builds [of E f wav w] by (auto simp: SAMPLE_RATE_def)
    have 3: "\<forall>k. resolve (cwd w) (fs w) wav \<noteq> Inr k \<longrightarrow> fs w' k = fs w k"
      using w' by (simp add: ensure_wav_frame)
    show ?thesis using 1 2 3 by blast
  qed
qed

theorem transcode_only_when_missing_witness:
  "path_exists world_sample (lit ''data/mls_en/train-wav/1_2_1.wav'') \<and>
   map_option fst
     (process_line env_sample (lit ''data/mls_en/train'') (lit ''data/mls_en/train-wav'')
        world_sample line_done) = Some world_sample \<and>
   \<not> path_exists world_sample (lit ''data/mls_en/train-wav/1_2_0.wav'') \<and>
   map_option (\<lambda>x. builds (fst x))
     (process_line env_sample (lit ''data/mls_en/train'') (lit ''data/mls_en/train-wav'')
        world_sample line_new)
   = Some [(lit ''data/mls_en/train/audio/1/2/1_2_0.flac'',
            lit ''data/mls_en/train-wav/1_2_0.wav'', 16000)]"
proof -
  have a: "wav_path (lit ''data/mls_en/train-wav'') (fst (parse_line line_done))
      = lit ''data/mls_en/train-wav/1_2_1.wav''"
    by (simp add: sample_simps line_new_def line_done_def)
  have b: "wav_path (lit ''data/mls_en/train-wav'') (fst (parse_line line_new))
      = lit ''data/mls_en/train-wav/1_2_0.wav''"
    by (simp add: sample_simps line_new_def line_done_def)
  have c: "flac_path (lit ''data/mls_en/train'') (fst (parse_line line_new))
      = Inr (lit ''data/mls_en/train/audio/1/2/1_2_0.flac'')"
    by (simp add: sample_simps line_new_def line_done_def)
  have e1: "path_exists world_sample (lit ''data/mls_en/train-wav/1_2_1.wav'')"
    by (simp add: sample_simps)
  have e0: "\<not> path_exists world_sample (lit ''data/mls_en/train-wav/1_2_0.wav'')"
    by (simp add: sample_simps)
  show ?thesis
    using transcode_only_when_missing [OF sample_line_there a [symmetric], of "[]"]
      transcode_only_when_missing [OF sample_line_missing b [symmetric],
        of "lit ''data/mls_en/train/audio/1/2/1_2_0.flac''"]
      e1 e0 c
    by (simp add: sample_line_there sample_line_missing)
qed

lemma normpath_abs: "take 1 p = [SEP] \<Longrightarrow> take 1 (normpath p) = [SEP]"
proof -
  assume a: "take 1 p = [SEP]"
  then have ne: "p \<noteq> []" by auto
  from a obtain m where m: "initial_slashes p = Suc m"
    by (cases "initial_slashes p") (auto simp: initial_slashes_def split: if_splits)
  show ?thesis using ne by (simp add: normpath_def m Let_def)
qed

lemma abspath_abs: "take 1 c = [SEP] \<Longrightarrow> take 1 (abspath c p) = [SEP]"
proof -
  assume c: "take 1 c = [SEP]"
  show ?thesis
  proof (cases "take 1 p = [SEP]")
    case True
    then show ?thesis using normpath_abs [of p] by (simp add: abspath_def)
  next
    case False
    then have "take 1 (join_step c p) = [SEP]"
      using c by (cases c; cases p) (auto simp: join_step_def)
    then show ?thesis
      using False normpath_abs [of "join_step c p"] by (simp add: abspath_def path_join_def)
  qed
qed

lemma line_body_count:
  "for_loop (line_body E root target_dir) lines w0 files0 = Some (w1, Inr files1) \<Longrightarrow>
   length files1 = length files0 + length lines"
proof (induction lines arbitrary: w0 files0)
  case Nil
  then show ?case by simp
next
  case (Cons l ls)
  from Cons.prems obtain w2 acc where
    lb: "line_body E root target_dir w0 files0 l = Some (w2, Inr acc)"
    and rest: "for_loop (line_body E root target_dir) ls w2 acc = Some (w1, Inr files1)"
    by (auto split: option.splits sum.splits prod.splits)
  from lb obtain r where acc: "acc = files0 @ [r]"
    by (auto simp: line_body_def split: option.splits sum.splits prod.splits)
  from Cons.IH [OF rest] acc show ?case by simp
qed

lemma process_line_again:
  assumes "process_line E root target_dir w line = Some (w', Inr r)"
  shows "process_line E root target_dir w' line = Some (w', Inr r)"
proof -
  let ?wav = "wav_path target_dir (fst (parse_line line))"
  from process_line_row [OF assms] obtain flac t n where
    f: "flac_path root (fst (parse_line line)) = Inr flac"
    and e: "ensure_wav E flac ?wav w = (w', None)"
    and t: "normalize_transcript (ucd E) (snd (parse_line line)) = Some t"
    and n: "getsize E w' ?wav = Inr n"
    and r: "r = (abspath (cwd w') ?wav, n, t)"
    by blast
  have "path_exists w' ?wav" using e by (rule ensure_wav_ok_exists)
  then have "ensure_wav E flac ?wav w' = (w', None)" by (rule ensure_wav_exists)
  then show ?thesis using f t n r by (simp add: process_line_def split_beta Let_def)
qed

text \<open>
  C7. The row a line adds is the absolute path of its WAV file, the size of that file and
  the normalised transcript, and by then the WAV file exists. Nothing looks at the rows
  already there: a line read twice gives its row twice, and a loop that ends without an
  error has added one row for every line.
\<close>

theorem manifest_row:
  "process_line E root target_dir w line = Some (w', Inr r) \<Longrightarrow>
   wav = wav_path target_dir (fst (parse_line line)) \<Longrightarrow>
     path_exists w' wav \<and>
     fst r = abspath (cwd w') wav \<and>
     getsize E w' wav = Inr (fst (snd r)) \<and>
     normalize_transcript (ucd E) (snd (parse_line line)) = Some (snd (snd r)) \<and>
     (take 1 (cwd w') = [SEP] \<longrightarrow> take 1 (fst r) = [SEP]) \<and>
     for_loop (line_body E root target_dir) [line, line] w files
       = Some (w', Inr (files @ [r, r])) \<and>
     (for_loop (line_body E root target_dir) lines w0 files0 = Some (w1, Inr files1) \<longrightarrow>
        length files1 = length files0 + length lines)"
proof -
  assume p: "process_line E root target_dir w line = Some (w', Inr r)"
    and wav: "wav = wav_path target_dir (fst (parse_line line))"
  from process_line_row [OF p] obtain flac t n where
    e: "ensure_wav E flac wav w = (w', None)"
    and t: "normalize_transcript (ucd E) (snd (parse_line line)) = Some t"
    and n: "getsize E w' wav = Inr n"
    and r: "r = (abspath (cwd w') wav, n, t)"
    using wav by blast
  have 1: "path_exists w' wav" using e by (rule ensure_wav_ok_exists)
  have 2: "take 1 (cwd w') = [SEP] \<longrightarrow> take 1 (fst r) = [SEP]"
    using r abspath_abs [of "cwd w'" wav] by simp
  have 3: "for_loop (line_body E root target_dir) [line, line] w files
       = Some (w', Inr (files @ [r, r]))"
    using p process_line_again [OF p] by (simp add: line_body_def)
  have 4: "for_loop (line_body E root target_dir) lines w0 files0 = Some (w1, Inr files1) \<longrightarrow>
        length files1 = length files0 + length lines"
    using line_body_count by blast
  show ?thesis using 1 2 3 4 t n r by simp
qed

theorem manifest_row_witness:
  "process_line env_sample (lit ''data/mls_en/train'') (lit ''data/mls_en/train-wav'') world_sample
     line_new
   = Some (world_sample
             \<lparr>fs := (fs world_sample)
                (home @ [lit ''data'', lit ''mls_en'', lit ''train-wav'', lit ''1_2_0.wav'']
                   \<mapsto> File (lit ''RIFFfLaC'')),
              builds := [(lit ''data/mls_en/train/audio/1/2/1_2_0.flac'',
                          lit ''data/mls_en/train-wav/1_2_0.wav'', 16000)]\<rparr>,
           Inr (lit ''/home/user/data/mls_en/train-wav/1_2_0.wav'', 8, lit ''hello world'')) \<and>
   map_option snd
     (for_loop (line_body env_sample (lit ''data/mls_en/train'') (lit ''data/mls_en/train-wav''))
        [line_new, line_new] world_sample [])
   = Some (Inr [(lit ''/home/user/data/mls_en/train-wav/1_2_0.wav'', 8, lit ''hello world''),
                (lit ''/home/user/data/mls_en/train-wav/1_2_0.wav'', 8, lit ''hello world'')])"
proof -
  have "for_loop (line_body env_sample (lit ''data/mls_en/train'') (lit ''data/mls_en/train-wav''))
        [line_new, line_new] world_sample []
      = Some (world_sample
             \<lparr>fs := (fs world_sample)
                (home @ [lit ''data'', lit ''mls_en'', lit ''train-wav'', lit ''1_2_0.wav'']
                   \<mapsto> File (lit ''RIFFfLaC'')),
              builds := [(lit ''data/mls_en/train/audio/1/2/1_2_0.flac'',
                          lit ''data/mls_en/train-wav/1_2_0.wav'', 16000)]\<rparr>,
           Inr ([] @ [(lit ''/home/user/data/mls_en/train-wav/1_2_0.wav'', 8, lit ''hello world''),
                (lit ''/home/user/data/mls_en/train-wav/1_2_0.wav'', 8, lit ''hello world'')]))"
    using manifest_row [OF sample_line_missing refl, of "[]" "[]" world_sample "[]" world_sample "[]"]
    by blast
  then show ?thesis using sample_line_missing by simp
qed
section \<open>The manifest writer\<close>

lemma line_loop_rows:
  "for_loop (line_body E root target_dir) lines w0 files0 = Some (w1, Inr files1) \<Longrightarrow>
   \<exists>rows. files1 = files0 @ rows \<and>
     list_all2 (row_of_line E target_dir) (map (Pair root) lines) rows"
proof (induction lines arbitrary: w0 files0)
  case Nil
  then show ?case by simp
next
  case (Cons l ls)
  from Cons.prems obtain w2 acc where
    lb: "line_body E root target_dir w0 files0 l = Some (w2, Inr acc)"
    and rest: "for_loop (line_body E root target_dir) ls w2 acc = Some (w1, Inr files1)"
    by (auto split: option.splits sum.splits prod.splits)
  from lb obtain r where r: "process_line E root target_dir w0 l = Some (w2, Inr r)"
    and acc: "acc = files0 @ [r]"
    by (auto simp: line_body_def split: option.splits sum.splits prod.splits)
  from Cons.IH [OF rest] obtain rows where
    rows: "files1 = acc @ rows" "list_all2 (row_of_line E target_dir) (map (Pair root) ls) rows"
    by blast
  have "row_of_line E target_dir (root, l) r" using r by (auto simp: row_of_line_def)
  then have "list_all2 (row_of_line E target_dir) (map (Pair root) (l # ls)) (r # rows)"
    using rows(2) by simp
  moreover have "files1 = files0 @ r # rows" using rows(1) acc by simp
  ultimately show ?case by blast
qed

lemma file_loop_rows:
  "for_loop (file_body E root target_dir) names w0 files0 = Some (w1, Inr files1) \<Longrightarrow>
   \<exists>rows. files1 = files0 @ rows \<and>
     list_all2 (row_of_line E target_dir)
       (concat (map (\<lambda>filename. map (Pair root) (fst (reader E (path_join root [filename]))))
                  names)) rows"
proof (induction names arbitrary: w0 files0)
  case Nil
  then show ?case by simp
next
  case (Cons n ns)
  from Cons.prems obtain w2 acc where
    fb: "file_body E root target_dir w0 files0 n = Some (w2, Inr acc)"
    and rest: "for_loop (file_body E root target_dir) ns w2 acc = Some (w1, Inr files1)"
    by (auto split: option.splits sum.splits prod.splits)
  from fb obtain w3 where
    "for_loop (line_body E root target_dir) (fst (reader E (path_join root [n]))) w0 files0
       = Some (w3, Inr acc)"
    by (auto simp: file_body_def Let_def split_beta split: option.splits sum.splits prod.splits)
  from line_loop_rows [OF this] obtain rows1 where
    r1: "acc = files0 @ rows1"
      "list_all2 (row_of_line E target_dir)
         (map (Pair root) (fst (reader E (path_join root [n])))) rows1"
    by blast
  from Cons.IH [OF rest] obtain rows2 where
    r2: "files1 = acc @ rows2"
      "list_all2 (row_of_line E target_dir)
         (concat (map (\<lambda>filename. map (Pair root) (fst (reader E (path_join root [filename]))))
                    ns)) rows2"
    by blast
  have "list_all2 (row_of_line E target_dir)
       (concat (map (\<lambda>filename. map (Pair root) (fst (reader E (path_join root [filename]))))
                  (n # ns))) (rows1 @ rows2)"
    using r1(2) r2(2) by (simp add: list_all2_appendI)
  moreover have "files1 = files0 @ rows1 @ rows2" using r1(1) r2(1) by simp
  ultimately show ?case by blast
qed

lemma walk_loop_rows:
  "for_loop (walk_body E target_dir) entries w0 files0 = Some (w1, Inr files1) \<Longrightarrow>
   \<exists>rows. files1 = files0 @ rows \<and>
     list_all2 (row_of_line E target_dir)
       (concat (map (\<lambda>(root, dirnames, filenames).
                  concat (map (\<lambda>filename. map (Pair root)
                                 (fst (reader E (path_join root [filename]))))
                            (filter (\<lambda>f. f = lit ''transcripts.txt'') filenames)))
                entries)) rows"
proof (induction entries arbitrary: w0 files0)
  case Nil
  then show ?case by simp
next
  case (Cons entry entries)
  obtain root dirnames filenames where e: "entry = (root, dirnames, filenames)"
    by (cases entry) auto
  from Cons.prems obtain w2 acc where
    wb: "walk_body E target_dir w0 files0 entry = Some (w2, Inr acc)"
    and rest: "for_loop (walk_body E target_dir) entries w2 acc = Some (w1, Inr files1)"
    by (auto split: option.splits sum.splits prod.splits)
  from wb e have
    "for_loop (file_body E root target_dir)
       (filter (\<lambda>f. f = lit ''transcripts.txt'') filenames) w0 files0 = Some (w2, Inr acc)"
    by (simp add: walk_body_def)
  from file_loop_rows [OF this] obtain rows1 where
    r1: "acc = files0 @ rows1"
      "list_all2 (row_of_line E target_dir)
         (concat (map (\<lambda>filename. map (Pair root) (fst (reader E (path_join root [filename]))))
                    (filter (\<lambda>f. f = lit ''transcripts.txt'') filenames))) rows1"
    by blast
  from Cons.IH [OF rest] obtain rows2 where
    r2: "files1 = acc @ rows2"
      "list_all2 (row_of_line E target_dir)
         (concat (map (\<lambda>(root, dirnames, filenames).
                  concat (map (\<lambda>filename. map (Pair root)
                                 (fst (reader E (path_join root [filename]))))
                            (filter (\<lambda>f. f = lit ''transcripts.txt'') filenames)))
                entries)) rows2"
    by blast
  have "list_all2 (row_of_line E target_dir)
       (concat (map (\<lambda>(root, dirnames, filenames).
                  concat (map (\<lambda>filename. map (Pair root)
                                 (fst (reader E (path_join root [filename]))))
                            (filter (\<lambda>f. f = lit ''transcripts.txt'') filenames)))
                (entry # entries))) (rows1 @ rows2)"
    using r1(2) r2(2) e by (simp add: list_all2_appendI)
  moreover have "files1 = files0 @ rows1 @ rows2" using r1(1) r2(1) by simp
  ultimately show ?case by blast
qed

lemma convert_loop:
  assumes "convert_audio_and_split_sentences E extracted_dir data_set dest_dir w = Some (w', Inr df)"
  shows "\<exists>w0 files.
      for_loop (walk_body E (path_join extracted_dir [dest_dir]))
        (walk E (path_join extracted_dir [data_set])) w0 [] = Some (w', Inr files) \<and>
      df = \<lparr>columns = [lit ''wav_filename'', lit ''wav_filesize'', lit ''transcript''],
             data = files\<rparr>"
proof -
  obtain f0 e0 where m: "(if \<not> path_exists w (path_join extracted_dir [dest_dir])
      then makedirs (cwd w) (path_join extracted_dir [dest_dir]) (fs w) else (fs w, None))
        = (f0, e0)"
    by (cases "if \<not> path_exists w (path_join extracted_dir [dest_dir])
      then makedirs (cwd w) (path_join extracted_dir [dest_dir]) (fs w) else (fs w, None)") auto
  have c: "(case e0 of
           Some e \<Rightarrow> Some (w\<lparr>fs := f0\<rparr>, Inl e)
         | None \<Rightarrow>
             (case for_loop (walk_body E (path_join extracted_dir [dest_dir]))
                     (walk E (path_join extracted_dir [data_set])) (w\<lparr>fs := f0\<rparr>) [] of
                None \<Rightarrow> None
              | Some (w1, Inl e) \<Rightarrow> Some (w1, Inl e)
              | Some (w1, Inr files) \<Rightarrow>
                  Some (w1, Inr \<lparr>columns = [lit ''wav_filename'', lit ''wav_filesize'',
                                            lit ''transcript''],
                                 data = files\<rparr>))) = Some (w', Inr df)"
    using assms unfolding convert_audio_and_split_sentences_def Let_def m by simp
  show ?thesis
  proof (cases e0)
    case (Some e)
    then show ?thesis using c by simp
  next
    case None
    then show ?thesis using c
      by (cases "for_loop (walk_body E (path_join extracted_dir [dest_dir]))
                     (walk E (path_join extracted_dir [data_set])) (w\<lparr>fs := f0\<rparr>) []")
        (auto split: sum.splits intro: exI [of _ "w\<lparr>fs := f0\<rparr>"])
  qed
qed

lemma convert_rows:
  assumes "convert_audio_and_split_sentences E extracted_dir data_set dest_dir w = Some (w', Inr df)"
  shows "columns df = [lit ''wav_filename'', lit ''wav_filesize'', lit ''transcript''] \<and>
     list_all2 (row_of_line E (path_join extracted_dir [dest_dir]))
       (split_lines E (path_join extracted_dir [data_set])) (data df)"
proof -
  from convert_loop [OF assms] obtain w0 files where
    l: "for_loop (walk_body E (path_join extracted_dir [dest_dir]))
        (walk E (path_join extracted_dir [data_set])) w0 [] = Some (w', Inr files)"
    and d: "df = \<lparr>columns = [lit ''wav_filename'', lit ''wav_filesize'', lit ''transcript''],
             data = files\<rparr>"
    by blast
  from walk_loop_rows [OF l] show ?thesis using d by (simp add: split_lines_def)
qed

lemma no_transcripts_lines:
  "\<forall>entry \<in> set (walk E source_dir). lit ''transcripts.txt'' \<notin> set (snd (snd entry)) \<Longrightarrow>
   split_lines E source_dir = []"
proof -
  assume a: "\<forall>entry \<in> set (walk E source_dir). lit ''transcripts.txt'' \<notin> set (snd (snd entry))"
  have "filter (\<lambda>f. f = lit ''transcripts.txt'') filenames = []"
    if "lit ''transcripts.txt'' \<notin> set filenames" for filenames
    using that by (induction filenames) auto
  then show ?thesis using a by (auto simp: split_lines_def)
qed

lemma csv_records_plain:
  "csv_records False df = map Text (columns df) # map row_cells (data df)"
proof -
  have "map (\<lambda>(i, r). (if False then [Number i] else []) @ row_cells r) (enumerate n rows)
      = map row_cells rows" for n rows
    by (induction rows arbitrary: n) auto
  then show ?thesis by (simp add: csv_records_def)
qed

lemma row_cells_plain:
  "map row_cells rows = map (\<lambda>r. [Text (fst r), Number (fst (snd r)), Text (snd (snd r))]) rows"
  by (simp add: row_cells_def split_beta)

lemma last_str_split_tail: "c \<notin> set b \<Longrightarrow> last (str_split c (a @ c # b)) = b"
proof (induction a)
  case Nil
  then show ?case using str_split_not_Nil [of c b] by (simp add: str_split_no_sep)
next
  case (Cons x a)
  have "2 \<le> length (str_split c (a @ c # b))" by (rule str_split_sep) simp
  then obtain q r rs where q: "str_split c (a @ c # b) = q # r # rs"
    by (cases "str_split c (a @ c # b)"; cases "tl (str_split c (a @ c # b))") auto
  show ?case using Cons q by auto
qed

lemma last_str_split_suffix:
  assumes "c \<notin> set suf"
  shows "\<exists>b. last (str_split c (pre @ suf)) = b @ suf"
proof (cases "c \<in> set pre")
  case True
  then obtain ys zs where s: "pre = ys @ c # zs" "c \<notin> set zs" using split_list_last by fastforce
  have "last (str_split c (ys @ c # (zs @ suf))) = zs @ suf"
    using s(2) assms by (intro last_str_split_tail) simp
  then show ?thesis using s(1) by auto
next
  case False
  then have "str_split c (pre @ suf) = [pre @ suf]" using assms by (intro str_split_no_sep) simp
  then show ?thesis by simp
qed

lemma csv_name:
  "SEP \<notin> set suf \<Longrightarrow> \<exists>b. last (str_split SEP (path_join d [m @ suf])) = b @ suf"
proof -
  assume a: "SEP \<notin> set suf"
  have "\<exists>pre. path_join d [m @ suf] = pre @ suf"
    by (auto simp: path_join_def join_step_def intro: exI [of _ "d @ m"] exI [of _ "d @ SEP # m"])
  then obtain pre where "path_join d [m @ suf] = pre @ suf" by blast
  then show ?thesis using last_str_split_suffix [OF a, of pre] by simp
qed

lemma csv_names_differ:
  "a @ lit ''-train.csv'' \<noteq> b @ lit ''-test.csv''"
  "a @ lit ''-train.csv'' \<noteq> b @ lit ''-dev.csv''"
  "a @ lit ''-test.csv'' \<noteq> b @ lit ''-dev.csv''"
proof -
  show "a @ lit ''-train.csv'' \<noteq> b @ lit ''-test.csv''"
  proof
    assume "a @ lit ''-train.csv'' = b @ lit ''-test.csv''"
    then have "take 5 (rev (a @ lit ''-train.csv'')) = take 5 (rev (b @ lit ''-test.csv''))"
      by (rule arg_cong)
    then show False by (simp add: lit_def)
  qed
  show "a @ lit ''-train.csv'' \<noteq> b @ lit ''-dev.csv''"
  proof
    assume "a @ lit ''-train.csv'' = b @ lit ''-dev.csv''"
    then have "take 5 (rev (a @ lit ''-train.csv'')) = take 5 (rev (b @ lit ''-dev.csv''))"
      by (rule arg_cong)
    then show False by (simp add: lit_def)
  qed
  show "a @ lit ''-test.csv'' \<noteq> b @ lit ''-dev.csv''"
  proof
    assume "a @ lit ''-test.csv'' = b @ lit ''-dev.csv''"
    then have "take 5 (rev (a @ lit ''-test.csv'')) = take 5 (rev (b @ lit ''-dev.csv''))"
      by (rule arg_cong)
    then show False by (simp add: lit_def)
  qed
qed

lemma to_csv_ok:
  assumes "to_csv E df path index w = (w', None)"
  shows "csvs w' = csvs w @ [(path, csv_records index df)] \<and>
     stat (cwd w') (fs w') path = Inr (File (fst (csv_text E (csv_records index df)))) \<and>
     (\<exists>par. resolve (cwd w') (fs w') path = Inr (par @ [last (str_split SEP path)])) \<and>
     grows (fs w) (fs w') \<and> cwd w' = cwd w"
proof -
  obtain bytes failure where t: "csv_text E (csv_records index df) = (bytes, failure)"
    by (cases "csv_text E (csv_records index df)") auto
  obtain f1 e1 where wf: "write_file (cwd w) path bytes (fs w) = (f1, e1)"
    by (cases "write_file (cwd w) path bytes (fs w)") auto
  from assms t wf have e1: "e1 = None" and fl: "failure = None"
    and w': "w' = w\<lparr>fs := f1, csvs := csvs w @ [(path, csv_records index df)]\<rparr>"
    by (auto simp: to_csv_def Let_def split: option.splits)
  have g: "grows (fs w) f1" using wf by (rule write_file_grows)
  have s: "stat (cwd w) f1 path = Inr (File bytes)" using wf e1 write_file_stat by simp
  obtain par where "resolve (cwd w) (fs w) path = Inr (par @ [last (str_split SEP path)])"
    using write_file_key [of "cwd w" path bytes "fs w" f1] wf e1 by blast
  then have "resolve (cwd w) f1 path = Inr (par @ [last (str_split SEP path)])"
    using g resolve_grows by blast
  then show ?thesis using w' g s t by auto
qed

lemma to_csv_keeps:
  assumes "to_csv E df q index w = (w', None)"
    and "resolve (cwd w) (fs w) p = Inr (par @ [name])" and "name \<noteq> last (str_split SEP q)"
  shows "resolve (cwd w') (fs w') p = Inr (par @ [name]) \<and>
     stat (cwd w') (fs w') p = stat (cwd w) (fs w) p"
proof -
  obtain bytes failure where t: "csv_text E (csv_records index df) = (bytes, failure)"
    by (cases "csv_text E (csv_records index df)") auto
  obtain f1 e1 where wf: "write_file (cwd w) q bytes (fs w) = (f1, e1)"
    by (cases "write_file (cwd w) q bytes (fs w)") auto
  from assms(1) t wf have e1: "e1 = None"
    and w': "w' = w\<lparr>fs := f1, csvs := csvs w @ [(q, csv_records index df)]\<rparr>"
    by (auto simp: to_csv_def Let_def split: option.splits)
  show ?thesis
    using write_file_keeps [of "cwd w" q bytes "fs w" f1 p par name] wf e1 assms(2,3) w'
    by simp
qed

lemma path_exists_grows:
  "grows (fs w) (fs w') \<Longrightarrow> cwd w' = cwd w \<Longrightarrow> path_exists w p \<Longrightarrow> path_exists w' p"
  using exists_grows [of "fs w" "fs w'" "cwd w" p] by (simp add: path_exists_def)

lemma download_steps:
  assumes "download_and_preprocess_data E data_dir language w = Some (w', None)"
  shows "\<exists>w2 w3 w4 w5 w6 w7 train test dev.
     convert_audio_and_split_sentences E data_dir
       (path_join (lit ''mls_'' @ language) [lit ''train''])
       (path_join (lit ''mls_'' @ language) [lit ''train-wav'']) w2 = Some (w3, Inr train) \<and>
     convert_audio_and_split_sentences E data_dir
       (path_join (lit ''mls_'' @ language) [lit ''test''])
       (path_join (lit ''mls_'' @ language) [lit ''test-wav'']) w3 = Some (w4, Inr test) \<and>
     convert_audio_and_split_sentences E data_dir
       (path_join (lit ''mls_'' @ language) [lit ''dev''])
       (path_join (lit ''mls_'' @ language) [lit ''dev-wav'']) w4 = Some (w5, Inr dev) \<and>
     to_csv E train (path_join data_dir [lit ''mls-'' @ language @ lit ''-train.csv'']) False w5
       = (w6, None) \<and>
     to_csv E test (path_join data_dir [lit ''mls-'' @ language @ lit ''-test.csv'']) False w6
       = (w7, None) \<and>
     to_csv E dev (path_join data_dir [lit ''mls-'' @ language @ lit ''-dev.csv'']) False w7
       = (w', None)"
  using assms unfolding download_and_preprocess_data_def Let_def
  by (simp split: prod.splits sum.splits option.splits) blast

text \<open>
  C8. When the script returns without error it has written three CSV files, in the order
  \<^verbatim>\<open>train\<close>, \<^verbatim>\<open>test\<close>, \<^verbatim>\<open>dev\<close>, each with the frame its split returned. The records of
  a file are the record of the three column names, then one record of three cells for
  every row of the frame, in order, and no record carries an index cell. Afterwards each
  of the three files holds the text of its records. The rows of a frame are, in order, the rows of the lines of the transcript
  files of the split, one for every line, so that a split in whose walk no file is called
  \<^verbatim>\<open>transcripts.txt\<close> gives the header record alone.
\<close>

theorem manifest_csv:
  "download_and_preprocess_data E data_dir language w = Some (w', None) \<Longrightarrow>
   \<exists>w2 w3 w4 w5 train test dev.
     convert_audio_and_split_sentences E data_dir
       (path_join (lit ''mls_'' @ language) [lit ''train''])
       (path_join (lit ''mls_'' @ language) [lit ''train-wav'']) w2 = Some (w3, Inr train) \<and>
     convert_audio_and_split_sentences E data_dir
       (path_join (lit ''mls_'' @ language) [lit ''test''])
       (path_join (lit ''mls_'' @ language) [lit ''test-wav'']) w3 = Some (w4, Inr test) \<and>
     convert_audio_and_split_sentences E data_dir
       (path_join (lit ''mls_'' @ language) [lit ''dev''])
       (path_join (lit ''mls_'' @ language) [lit ''dev-wav'']) w4 = Some (w5, Inr dev) \<and>
     csvs w' = csvs w5 @
       map (\<lambda>(name, df).
              (path_join data_dir [lit ''mls-'' @ language @ lit ''-'' @ name @ lit ''.csv''],
               [Text (lit ''wav_filename''), Text (lit ''wav_filesize''), Text (lit ''transcript'')]
               # map (\<lambda>r. [Text (fst r), Number (fst (snd r)), Text (snd (snd r))]) (data df)))
         [(lit ''train'', train), (lit ''test'', test), (lit ''dev'', dev)] \<and>
     (\<forall>(name, df) \<in> set [(lit ''train'', train), (lit ''test'', test), (lit ''dev'', dev)].
        stat (cwd w') (fs w')
          (path_join data_dir [lit ''mls-'' @ language @ lit ''-'' @ name @ lit ''.csv''])
        = Inr (File (fst (csv_text E
            ([Text (lit ''wav_filename''), Text (lit ''wav_filesize''), Text (lit ''transcript'')]
             # map (\<lambda>r. [Text (fst r), Number (fst (snd r)), Text (snd (snd r))])
                 (data df))))) \<and>
        list_all2
          (row_of_line E
             (path_join data_dir [path_join (lit ''mls_'' @ language) [name @ lit ''-wav'']]))
          (split_lines E (path_join data_dir [path_join (lit ''mls_'' @ language) [name]]))
          (data df) \<and>
        ((\<forall>entry \<in> set (walk E (path_join data_dir
                                   [path_join (lit ''mls_'' @ language) [name]])).
            lit ''transcripts.txt'' \<notin> set (snd (snd entry))) \<longrightarrow> data df = []))"
proof -
  assume a: "download_and_preprocess_data E data_dir language w = Some (w', None)"
  from download_steps [OF a] obtain w2 w3 w4 w5 w6 w7 train test dev where
    c1: "convert_audio_and_split_sentences E data_dir
       (path_join (lit ''mls_'' @ language) [lit ''train''])
       (path_join (lit ''mls_'' @ language) [lit ''train-wav'']) w2 = Some (w3, Inr train)"
    and c2: "convert_audio_and_split_sentences E data_dir
       (path_join (lit ''mls_'' @ language) [lit ''test''])
       (path_join (lit ''mls_'' @ language) [lit ''test-wav'']) w3 = Some (w4, Inr test)"
    and c3: "convert_audio_and_split_sentences E data_dir
       (path_join (lit ''mls_'' @ language) [lit ''dev''])
       (path_join (lit ''mls_'' @ language) [lit ''dev-wav'']) w4 = Some (w5, Inr dev)"
    and t1: "to_csv E train (path_join data_dir [lit ''mls-'' @ language @ lit ''-train.csv''])
       False w5 = (w6, None)"
    and t2: "to_csv E test (path_join data_dir [lit ''mls-'' @ language @ lit ''-test.csv''])
       False w6 = (w7, None)"
    and t3: "to_csv E dev (path_join data_dir [lit ''mls-'' @ language @ lit ''-dev.csv''])
       False w7 = (w', None)"
    by blast
  note r1 = convert_rows [OF c1] and r2 = convert_rows [OF c2] and r3 = convert_rows [OF c3]
  note o1 = to_csv_ok [OF t1] and o2 = to_csv_ok [OF t2] and o3 = to_csv_ok [OF t3]
  have recs: "csv_records False df =
      [Text (lit ''wav_filename''), Text (lit ''wav_filesize''), Text (lit ''transcript'')]
      # map (\<lambda>r. [Text (fst r), Number (fst (snd r)), Text (snd (snd r))]) (data df)"
    if "columns df = [lit ''wav_filename'', lit ''wav_filesize'', lit ''transcript'']" for df
    using that by (simp add: csv_records_plain row_cells_plain)
  have names: "lit ''-'' @ lit ''train'' @ lit ''.csv'' = lit ''-train.csv''"
    "lit ''-'' @ lit ''test'' @ lit ''.csv'' = lit ''-test.csv''"
    "lit ''-'' @ lit ''dev'' @ lit ''.csv'' = lit ''-dev.csv''"
    "lit ''train'' @ lit ''-wav'' = lit ''train-wav''"
    "lit ''test'' @ lit ''-wav'' = lit ''test-wav''"
    "lit ''dev'' @ lit ''-wav'' = lit ''dev-wav''"
    by (simp_all add: lit_def)
  have log: "csvs w' = csvs w5 @
       map (\<lambda>(name, df).
              (path_join data_dir [lit ''mls-'' @ language @ lit ''-'' @ name @ lit ''.csv''],
               [Text (lit ''wav_filename''), Text (lit ''wav_filesize''), Text (lit ''transcript'')]
               # map (\<lambda>r. [Text (fst r), Number (fst (snd r)), Text (snd (snd r))]) (data df)))
         [(lit ''train'', train), (lit ''test'', test), (lit ''dev'', dev)]"
    using o1 o2 o3 recs [of train] recs [of test] recs [of dev] r1 r2 r3 by (simp add: names)
  let ?p1 = "path_join data_dir [lit ''mls-'' @ language @ lit ''-train.csv'']"
  let ?p2 = "path_join data_dir [lit ''mls-'' @ language @ lit ''-test.csv'']"
  let ?p3 = "path_join data_dir [lit ''mls-'' @ language @ lit ''-dev.csv'']"
  have sep: "SEP \<notin> set (lit ''-train.csv'')" "SEP \<notin> set (lit ''-test.csv'')"
    "SEP \<notin> set (lit ''-dev.csv'')"
    by (simp_all add: lit_def SEP_def)
  obtain b1 where b1: "last (str_split SEP ?p1) = b1 @ lit ''-train.csv''"
    using csv_name [OF sep(1), of data_dir "lit ''mls-'' @ language"] by auto
  obtain b2 where b2: "last (str_split SEP ?p2) = b2 @ lit ''-test.csv''"
    using csv_name [OF sep(2), of data_dir "lit ''mls-'' @ language"] by auto
  obtain b3 where b3: "last (str_split SEP ?p3) = b3 @ lit ''-dev.csv''"
    using csv_name [OF sep(3), of data_dir "lit ''mls-'' @ language"] by auto
  from o1 obtain par1 where k1: "resolve (cwd w6) (fs w6) ?p1 = Inr (par1 @ [b1 @ lit ''-train.csv''])"
    using b1 by auto
  from o2 obtain par2 where k2: "resolve (cwd w7) (fs w7) ?p2 = Inr (par2 @ [b2 @ lit ''-test.csv''])"
    using b2 by auto
  have n12: "b1 @ lit ''-train.csv'' \<noteq> last (str_split SEP ?p2)"
    using b2 csv_names_differ(1) [of b1 b2] by simp
  have n13: "b1 @ lit ''-train.csv'' \<noteq> last (str_split SEP ?p3)"
    using b3 csv_names_differ(2) [of b1 b3] by simp
  have n23: "b2 @ lit ''-test.csv'' \<noteq> last (str_split SEP ?p3)"
    using b3 csv_names_differ(3) [of b2 b3] by simp
  have st1: "stat (cwd w6) (fs w6) ?p1 = Inr (File (fst (csv_text E (csv_records False train))))"
    using o1 by blast
  have st2: "stat (cwd w7) (fs w7) ?p2 = Inr (File (fst (csv_text E (csv_records False test))))"
    using o2 by blast
  have e3: "stat (cwd w') (fs w') ?p3 = Inr (File (fst (csv_text E (csv_records False dev))))"
    using o3 by blast
  note s1 = to_csv_keeps [OF t2 k1 n12]
  have k1': "resolve (cwd w7) (fs w7) ?p1 = Inr (par1 @ [b1 @ lit ''-train.csv''])"
    using s1 by blast
  have "stat (cwd w') (fs w') ?p1 = stat (cwd w7) (fs w7) ?p1"
    using to_csv_keeps [OF t3 k1' n13] by blast
  also have "\<dots> = stat (cwd w6) (fs w6) ?p1" using s1 by blast
  finally have e1: "stat (cwd w') (fs w') ?p1
      = Inr (File (fst (csv_text E (csv_records False train))))"
    using st1 by simp
  have "stat (cwd w') (fs w') ?p2 = stat (cwd w7) (fs w7) ?p2"
    using to_csv_keeps [OF t3 k2 n23] by blast
  then have e2: "stat (cwd w') (fs w') ?p2
      = Inr (File (fst (csv_text E (csv_records False test))))"
    using st2 by simp
  have n1: "(\<forall>entry \<in> set (walk E (path_join data_dir
                                   [path_join (lit ''mls_'' @ language) [lit ''train'']])).
            lit ''transcripts.txt'' \<notin> set (snd (snd entry))) \<longrightarrow> data train = []"
    using r1 no_transcripts_lines [of E "path_join data_dir
        [path_join (lit ''mls_'' @ language) [lit ''train'']]"] by auto
  have n2: "(\<forall>entry \<in> set (walk E (path_join data_dir
                                   [path_join (lit ''mls_'' @ language) [lit ''test'']])).
            lit ''transcripts.txt'' \<notin> set (snd (snd entry))) \<longrightarrow> data test = []"
    using r2 no_transcripts_lines [of E "path_join data_dir
        [path_join (lit ''mls_'' @ language) [lit ''test'']]"] by auto
  have n3: "(\<forall>entry \<in> set (walk E (path_join data_dir
                                   [path_join (lit ''mls_'' @ language) [lit ''dev'']])).
            lit ''transcripts.txt'' \<notin> set (snd (snd entry))) \<longrightarrow> data dev = []"
    using r3 no_transcripts_lines [of E "path_join data_dir
        [path_join (lit ''mls_'' @ language) [lit ''dev'']]"] by auto
  have all: "\<forall>(name, df) \<in> set [(lit ''train'', train), (lit ''test'', test), (lit ''dev'', dev)].
        stat (cwd w') (fs w')
          (path_join data_dir [lit ''mls-'' @ language @ lit ''-'' @ name @ lit ''.csv''])
        = Inr (File (fst (csv_text E
            ([Text (lit ''wav_filename''), Text (lit ''wav_filesize''), Text (lit ''transcript'')]
             # map (\<lambda>r. [Text (fst r), Number (fst (snd r)), Text (snd (snd r))])
                 (data df))))) \<and>
        list_all2
          (row_of_line E
             (path_join data_dir [path_join (lit ''mls_'' @ language) [name @ lit ''-wav'']]))
          (split_lines E (path_join data_dir [path_join (lit ''mls_'' @ language) [name]]))
          (data df) \<and>
        ((\<forall>entry \<in> set (walk E (path_join data_dir
                                   [path_join (lit ''mls_'' @ language) [name]])).
            lit ''transcripts.txt'' \<notin> set (snd (snd entry))) \<longrightarrow> data df = [])"
    using e1 e2 e3 r1 r2 r3 n1 n2 n3 recs [of train] recs [of test] recs [of dev]
    by (simp add: names)
  show ?thesis using c1 c2 c3 log all by blast
qed

lemmas run_simps =
  sample_simps download_and_preprocess_data_def convert_audio_and_split_sentences_def
  maybe_extract_def walk_body_def file_body_def line_body_def to_csv_def csv_records_def
  row_cells_def csv_sample_def cell_text_def decimal.simps makedirs.simps makedirs_split_def
  mkdir_def line_new_def enumerate_eq_zip

lemma sample_run:
  "map_option (\<lambda>x. (csvs (fst x), snd x))
     (download_and_preprocess_data env_sample (lit ''data'') (lit ''en'') world_sample)
   = Some ([(lit ''data/mls-en-train.csv'',
             [[Text (lit ''wav_filename''), Text (lit ''wav_filesize''), Text (lit ''transcript'')],
              [Text (lit ''/home/user/data/mls_en/train-wav/1_2_0.wav''), Number 8,
               Text (lit ''hello world'')],
              [Text (lit ''/home/user/data/mls_en/train-wav/1_2_0.wav''), Number 8,
               Text (lit ''hello world'')]]),
            (lit ''data/mls-en-test.csv'',
             [[Text (lit ''wav_filename''), Text (lit ''wav_filesize''), Text (lit ''transcript'')]]),
            (lit ''data/mls-en-dev.csv'',
             [[Text (lit ''wav_filename''), Text (lit ''wav_filesize''), Text (lit ''transcript'')]])],
           None)"
  by (simp add: run_simps)

theorem manifest_csv_witness:
  "map_option (\<lambda>x. (csvs (fst x), snd x))
     (download_and_preprocess_data env_sample (lit ''data'') (lit ''en'') world_sample)
   = Some ([(lit ''data/mls-en-train.csv'',
             [[Text (lit ''wav_filename''), Text (lit ''wav_filesize''), Text (lit ''transcript'')],
              [Text (lit ''/home/user/data/mls_en/train-wav/1_2_0.wav''), Number 8,
               Text (lit ''hello world'')],
              [Text (lit ''/home/user/data/mls_en/train-wav/1_2_0.wav''), Number 8,
               Text (lit ''hello world'')]]),
            (lit ''data/mls-en-test.csv'',
             [[Text (lit ''wav_filename''), Text (lit ''wav_filesize''), Text (lit ''transcript'')]]),
            (lit ''data/mls-en-dev.csv'',
             [[Text (lit ''wav_filename''), Text (lit ''wav_filesize''), Text (lit ''transcript'')]])],
           None) \<and>
   map_option
     (\<lambda>x. path_exists (fst x) (lit ''data/mls-en-train.csv'') \<and>
          path_exists (fst x) (lit ''data/mls-en-test.csv'') \<and>
          path_exists (fst x) (lit ''data/mls-en-dev.csv''))
     (download_and_preprocess_data env_sample (lit ''data'') (lit ''en'') world_sample)
   = Some True \<and>
   split_lines env_sample (lit ''data/mls_en/train'')
   = [(lit ''data/mls_en/train'', line_new), (lit ''data/mls_en/train'', line_new)]"
proof -
  from sample_run obtain W where
    W: "download_and_preprocess_data env_sample (lit ''data'') (lit ''en'') world_sample
          = Some (W, None)"
    by auto
  have p: "path_join (lit ''data'') [lit ''mls-'' @ lit ''en'' @ lit ''-'' @ lit ''train'' @ lit ''.csv'']
        = lit ''data/mls-en-train.csv''"
    "path_join (lit ''data'') [lit ''mls-'' @ lit ''en'' @ lit ''-'' @ lit ''test'' @ lit ''.csv'']
        = lit ''data/mls-en-test.csv''"
    "path_join (lit ''data'') [lit ''mls-'' @ lit ''en'' @ lit ''-'' @ lit ''dev'' @ lit ''.csv'']
        = lit ''data/mls-en-dev.csv''"
    by (simp_all add: path_join_def join_step_def lit_def SEP_def)
  have "path_exists W (lit ''data/mls-en-train.csv'') \<and>
        path_exists W (lit ''data/mls-en-test.csv'') \<and>
        path_exists W (lit ''data/mls-en-dev.csv'')"
    using manifest_csv [OF W] unfolding p [symmetric]
    by (auto simp: path_exists_def os_path_exists_def)
  then have e: "map_option
     (\<lambda>x. path_exists (fst x) (lit ''data/mls-en-train.csv'') \<and>
          path_exists (fst x) (lit ''data/mls-en-test.csv'') \<and>
          path_exists (fst x) (lit ''data/mls-en-dev.csv''))
     (download_and_preprocess_data env_sample (lit ''data'') (lit ''en'') world_sample)
   = Some True"
    using W by simp
  have s: "split_lines env_sample (lit ''data/mls_en/train'')
   = [(lit ''data/mls_en/train'', line_new), (lit ''data/mls_en/train'', line_new)]"
    by (simp add: split_lines_def env_sample_def path_join_def join_step_def lit_def SEP_def)
  show ?thesis using sample_run e s by simp
qed

section \<open>The extractor and its marker\<close>

lemma mkdir_stat:
  assumes "mkdir c p f = (f', None)"
  shows "stat c f' (strip_sep p) = Inr Dir"
proof -
  from mkdir_ok [OF assms] obtain k where
    k: "resolve c f (strip_sep p) = Inr k" "k \<noteq> []" and f': "f' = f(k \<mapsto> Dir)" by blast
  have "grows f f'" using assms by (rule mkdir_grows)
  then have "resolve c f' (strip_sep p) = Inr k" using k(1) by (rule resolve_grows)
  then show ?thesis using k(2) f' by (simp add: stat_def node_at_def)
qed

lemma makedir_grows: "makedir c p f = (f', e) \<Longrightarrow> grows f f'"
  using mkdir_grows [of c p f] by (auto simp: makedir_def split: prod.splits if_splits)

lemma makedir_exists:
  assumes "makedir c p f = (f', None)" and "strip_sep p = p"
  shows "os_path_exists c f' p"
proof -
  obtain f2 e2 where m: "mkdir c p f = (f2, e2)" by (cases "mkdir c p f") auto
  show ?thesis
  proof (cases "e2 = Some FileExistsError \<and> stat c f2 p = Inr Dir")
    case True
    then show ?thesis using assms(1) m by (simp add: makedir_def os_path_exists_def)
  next
    case False
    then have "mkdir c p f = (f', None)" using assms(1) m by (auto simp: makedir_def)
    then show ?thesis using mkdir_stat [of c p f f'] assms(2) by (simp add: os_path_exists_def)
  qed
qed

lemma member_target_stripped: "strip_sep (member_target path m) = member_target path m"
  using strip_sep_idem [of "path_join path [m_name m]"] by (simp add: member_target_def strip_sep_def)

lemma extract_member_steps:
  assumes "extract_member c path f m = (f', e)"
  shows "\<exists>f1 e1. grows f f1 \<and>
     (e1 \<noteq> None \<longrightarrow> f' = f1 \<and> e = e1) \<and>
     (e1 = None \<longrightarrow>
        (if m_isdir m then makedir c (member_target path m) f1 = (f', e)
         else write_file c (member_target path m) (m_data m) f1 = (f', e)))"
proof -
  let ?t = "member_target path m"
  let ?u = "fst (path_split ?t)"
  obtain f1 e1 where u: "(if ?u \<noteq> [] \<and> \<not> os_path_exists c f ?u then makedirs c ?u f
      else (f, None)) = (f1, e1)"
    by (cases "if ?u \<noteq> [] \<and> \<not> os_path_exists c f ?u then makedirs c ?u f else (f, None)") auto
  have g: "grows f f1"
    using u makedirs_grows [of c ?u f f1 e1] by (auto simp: grows_refl split: if_splits)
  have "(case e1 of
           Some e \<Rightarrow> (f1, Some e)
         | None \<Rightarrow>
             if m_isdir m then makedir c ?t f1
             else write_file c ?t (m_data m) f1) = (f', e)"
    using assms unfolding extract_member_def Let_def u by simp
  then have "(e1 \<noteq> None \<longrightarrow> f' = f1 \<and> e = e1) \<and>
     (e1 = None \<longrightarrow>
        (if m_isdir m then makedir c ?t f1 = (f', e)
         else write_file c ?t (m_data m) f1 = (f', e)))"
    by (cases e1) auto
  then show ?thesis using g by blast
qed

lemma extract_member_grows: "extract_member c path f m = (f', e) \<Longrightarrow> grows f f'"
proof -
  assume "extract_member c path f m = (f', e)"
  from extract_member_steps [OF this] obtain f1 e1 where g: "grows f f1"
    and s: "e1 \<noteq> None \<longrightarrow> f' = f1 \<and> e = e1"
      "e1 = None \<longrightarrow>
        (if m_isdir m then makedir c (member_target path m) f1 = (f', e)
         else write_file c (member_target path m) (m_data m) f1 = (f', e))"
    by blast
  have "grows f1 f'"
    using s makedir_grows [of c "member_target path m" f1 f' e]
      write_file_grows [of c "member_target path m" "m_data m" f1 f' e]
    by (cases e1) (auto simp: grows_refl split: if_splits)
  then show ?thesis using g grows_trans by blast
qed

lemma extract_member_target:
  "extract_member c path f m = (f', None) \<Longrightarrow> os_path_exists c f' (member_target path m)"
proof -
  assume "extract_member c path f m = (f', None)"
  from extract_member_steps [OF this] obtain f1 e1 where
    s: "e1 \<noteq> None \<longrightarrow> f' = f1 \<and> None = e1"
      "e1 = None \<longrightarrow>
        (if m_isdir m then makedir c (member_target path m) f1 = (f', None)
         else write_file c (member_target path m) (m_data m) f1 = (f', None))"
    by blast
  then have e1: "e1 = None" by (cases e1) auto
  show ?thesis
  proof (cases "m_isdir m")
    case True
    then have "makedir c (member_target path m) f1 = (f', None)" using s e1 by simp
    then show ?thesis using member_target_stripped by (rule makedir_exists)
  next
    case False
    then have "write_file c (member_target path m) (m_data m) f1 = (f', None)" using s e1 by simp
    then show ?thesis using write_file_stat by (simp add: os_path_exists_def)
  qed
qed

lemma extractall_grows: "extractall c path ms f = (f', e) \<Longrightarrow> grows f f'"
proof (induction ms arbitrary: f)
  case Nil
  then show ?case by (simp add: grows_refl)
next
  case (Cons m ms)
  obtain f1 e1 where x: "extract_member c path f m = (f1, e1)"
    by (cases "extract_member c path f m") auto
  have f1: "grows f f1" using x by (rule extract_member_grows)
  show ?case
  proof (cases e1)
    case None
    then have "extractall c path ms f1 = (f', e)" using Cons.prems x by simp
    then have "grows f1 f'" by (rule Cons.IH)
    then show ?thesis using f1 grows_trans by blast
  next
    case (Some a)
    then show ?thesis using Cons.prems x f1 by simp
  qed
qed

lemma extractall_targets:
  "extractall c path ms f = (f', None) \<Longrightarrow> m \<in> set ms \<Longrightarrow>
   os_path_exists c f' (member_target path m)"
proof (induction ms arbitrary: f)
  case Nil
  then show ?case by simp
next
  case (Cons a ms)
  obtain f1 e1 where x: "extract_member c path f a = (f1, e1)"
    by (cases "extract_member c path f a") auto
  have e1: "e1 = None" using Cons.prems(1) x by (cases e1) auto
  have rest: "extractall c path ms f1 = (f', None)" using Cons.prems(1) x e1 by simp
  show ?case
  proof (cases "m = a")
    case True
    have "os_path_exists c f1 (member_target path a)" using x e1 extract_member_target by blast
    then show ?thesis using True extractall_grows [OF rest] exists_grows by blast
  next
    case False
    then have "m \<in> set ms" using Cons.prems(2) by simp
    then show ?thesis using rest Cons.IH by blast
  qed
qed

text \<open>
  C9, as the code has it. When the marker is there the call changes nothing and does not
  open the archive. Otherwise the archive is opened and its members are extracted in
  order into the destination directory; after a call that returns without error every
  member is there. Nothing is ever removed, so a marker that was there stays; a marker
  that was not there is there afterwards when a member of the archive is extracted to
  the marker path. The call itself does not make the marker.
\<close>

theorem maybe_extract_marker:
  "maybe_extract E data_dir extracted_data archive w = (w', e) \<Longrightarrow>
   marker = path_join data_dir [extracted_data] \<Longrightarrow>
     (path_exists w marker \<longrightarrow> w' = w \<and> e = None) \<and>
     (\<not> path_exists w marker \<longrightarrow>
        (\<forall>err. tarfile_open E w archive = Inl err \<longrightarrow> w' = w \<and> e = Some err) \<and>
        (\<forall>ms. tarfile_open E w archive = Inr ms \<longrightarrow>
           extractall (cwd w) data_dir ms (fs w) = (fs w', e) \<and>
           (e = None \<longrightarrow>
              (\<forall>m \<in> set ms. path_exists w' (member_target data_dir m)) \<and>
              ((\<exists>m \<in> set ms. member_target data_dir m = marker) \<longrightarrow> path_exists w' marker)))) \<and>
     (\<forall>p. path_exists w p \<longrightarrow> path_exists w' p)"
proof -
  assume x: "maybe_extract E data_dir extracted_data archive w = (w', e)"
    and marker: "marker = path_join data_dir [extracted_data]"
  show ?thesis
  proof (cases "path_exists w marker")
    case True
    then show ?thesis using x marker by (simp add: maybe_extract_def)
  next
    case False
    show ?thesis
    proof (cases "tarfile_open E w archive")
      case (Inl err)
      then show ?thesis using x marker False by (simp add: maybe_extract_def)
    next
      case (Inr ms)
      obtain f1 e1 where a: "extractall (cwd w) data_dir ms (fs w) = (f1, e1)"
        by (cases "extractall (cwd w) data_dir ms (fs w)") auto
      have w': "w' = w\<lparr>fs := f1\<rparr>" and e: "e = e1"
        using x marker False Inr a by (simp_all add: maybe_extract_def)
      have 1: "extractall (cwd w) data_dir ms (fs w) = (fs w', e)" using a w' e by simp
      have c: "cwd w' = cwd w" using w' by simp
      have 2: "\<forall>m \<in> set ms. path_exists w' (member_target data_dir m)" if "e = None"
        using extractall_targets [of "cwd w" data_dir ms "fs w" "fs w'"] 1 that c
        by (simp add: path_exists_def)
      have 3: "\<forall>p. path_exists w p \<longrightarrow> path_exists w' p"
        using extractall_grows [OF 1] exists_grows c by (simp add: path_exists_def)
      show ?thesis using False Inr 1 2 3 by auto
    qed
  qed
qed

lemmas extract_simps =
  extract_member_def member_target_def path_join_def join_step_def path_split_def
  makedirs.simps makedirs_split_def mkdir_def makedir_def write_file_def resolve_parent_def
  strip_sep_def os_path_exists_def stat_def resolve_def start_def step_def node_at_def
  world_fresh_def home_def lit_def SEP_def Let_def tar_sample_def

lemma sample_extract:
  "extractall (cwd world_fresh) (lit ''data'') tar_sample (fs world_fresh)
   = ((fs world_fresh)
        (home @ [lit ''data'', lit ''mls_en''] \<mapsto> Dir,
         home @ [lit ''data'', lit ''mls_en'', lit ''train''] \<mapsto> Dir,
         home @ [lit ''data'', lit ''mls_en'', lit ''train'', lit ''transcripts.txt'']
           \<mapsto> File (lit ''1_2_0'')), None)"
  by (simp add: extract_simps)

lemma sample_open:
  "tarfile_open env_sample world_fresh (lit ''data/mls_en.tar.gz'') = Inr tar_sample"
  by (simp add: tarfile_open_def env_sample_def extract_simps)

lemma sample_maybe_extract:
  "maybe_extract env_sample (lit ''data'') (lit ''MLS'') (lit ''data/mls_en.tar.gz'') world_fresh
   = (world_fresh\<lparr>fs := (fs world_fresh)
        (home @ [lit ''data'', lit ''mls_en''] \<mapsto> Dir,
         home @ [lit ''data'', lit ''mls_en'', lit ''train''] \<mapsto> Dir,
         home @ [lit ''data'', lit ''mls_en'', lit ''train'', lit ''transcripts.txt'']
           \<mapsto> File (lit ''1_2_0''))\<rparr>, None)"
proof -
  have a: "\<not> path_exists world_fresh (path_join (lit ''data'') [lit ''MLS''])"
    by (simp add: path_exists_def extract_simps)
  show ?thesis by (simp add: maybe_extract_def a sample_open sample_extract)
qed

theorem maybe_extract_marker_witness:
  "maybe_extract env_sample (lit ''data'') (lit ''mls_en'') (lit ''data/mls_en.tar.gz'')
     world_fresh
   = (world_fresh\<lparr>fs := (fs world_fresh)
        (home @ [lit ''data'', lit ''mls_en''] \<mapsto> Dir,
         home @ [lit ''data'', lit ''mls_en'', lit ''train''] \<mapsto> Dir,
         home @ [lit ''data'', lit ''mls_en'', lit ''train'', lit ''transcripts.txt'']
           \<mapsto> File (lit ''1_2_0''))\<rparr>, None) \<and>
   lit ''data/mls_en'' = path_join (lit ''data'') [lit ''mls_en''] \<and>
   \<not> path_exists world_fresh (lit ''data/mls_en'') \<and>
   hd tar_sample \<in> set tar_sample \<and>
   member_target (lit ''data'') (hd tar_sample) = lit ''data/mls_en'' \<and>
   path_exists
     (fst (maybe_extract env_sample (lit ''data'') (lit ''mls_en'') (lit ''data/mls_en.tar.gz'')
        world_fresh)) (lit ''data/mls_en'')"
proof -
  have a: "\<not> path_exists world_fresh (lit ''data/mls_en'')"
    by (simp add: path_exists_def extract_simps)
  have j: "lit ''data/mls_en'' = path_join (lit ''data'') [lit ''mls_en'']"
    by (simp add: path_join_def join_step_def lit_def SEP_def)
  have x: "maybe_extract env_sample (lit ''data'') (lit ''mls_en'') (lit ''data/mls_en.tar.gz'')
      world_fresh
   = (world_fresh\<lparr>fs := (fs world_fresh)
        (home @ [lit ''data'', lit ''mls_en''] \<mapsto> Dir,
         home @ [lit ''data'', lit ''mls_en'', lit ''train''] \<mapsto> Dir,
         home @ [lit ''data'', lit ''mls_en'', lit ''train'', lit ''transcripts.txt'']
           \<mapsto> File (lit ''1_2_0''))\<rparr>, None)"
    using a by (simp add: maybe_extract_def j [symmetric] sample_open sample_extract)
  have t: "hd tar_sample \<in> set tar_sample"
    "member_target (lit ''data'') (hd tar_sample) = lit ''data/mls_en''"
    by (simp_all add: tar_sample_def member_target_def path_join_def join_step_def lit_def SEP_def)
  have "path_exists (world_fresh\<lparr>fs := (fs world_fresh)
        (home @ [lit ''data'', lit ''mls_en''] \<mapsto> Dir,
         home @ [lit ''data'', lit ''mls_en'', lit ''train''] \<mapsto> Dir,
         home @ [lit ''data'', lit ''mls_en'', lit ''train'', lit ''transcripts.txt'']
           \<mapsto> File (lit ''1_2_0''))\<rparr>) (lit ''data/mls_en'')"
    using maybe_extract_marker [OF x j] a sample_open t by auto
  then show ?thesis using x j a t by simp
qed

text \<open>
  The archive of the instance unpacks to \<^verbatim>\<open>data/mls_en\<close>. With \<^verbatim>\<open>MLS\<close> as marker, as the
  script calls the extractor, the call returns without error and the marker is not there.
\<close>

theorem maybe_extract_marker_counterexample:
  "snd (maybe_extract env_sample (lit ''data'') (lit ''MLS'') (lit ''data/mls_en.tar.gz'')
          world_fresh) = None \<and>
   \<not> path_exists
     (fst (maybe_extract env_sample (lit ''data'') (lit ''MLS'') (lit ''data/mls_en.tar.gz'')
        world_fresh)) (path_join (lit ''data'') [lit ''MLS'']) \<and>
   path_exists
     (fst (maybe_extract env_sample (lit ''data'') (lit ''MLS'') (lit ''data/mls_en.tar.gz'')
        world_fresh)) (lit ''data/mls_en/train/transcripts.txt'')"
  by (simp add: sample_maybe_extract) (simp add: path_exists_def extract_simps)

section \<open>Encoding to UTF-8 and back\<close>

lemma div4096: "(c::nat) div 4096 = c div 64 div 64"
  by (simp add: div_mult2_eq [symmetric])

lemma div262144: "(c::nat) div 262144 = c div 64 div 64 div 64"
  by (simp add: div_mult2_eq [symmetric])

lemma join3: "(c::nat) div 4096 * 4096 + c div 64 mod 64 * 64 + c mod 64 = c"
proof -
  define q r h m where "q = c div 64" and "r = c mod 64" and "h = q div 64" and "m = q mod 64"
  have 1: "c = q * 64 + r" by (simp add: q_def r_def)
  have 2: "q = h * 64 + m" by (simp add: h_def m_def)
  have "h * 4096 + m * 64 + r = c" using 1 2 by linarith
  then show ?thesis by (simp add: div4096 q_def r_def h_def m_def)
qed

lemma join4:
  "(c::nat) div 262144 * 262144 + c div 4096 mod 64 * 4096 + c div 64 mod 64 * 64 + c mod 64 = c"
proof -
  define q r h m g n where "q = c div 64" and "r = c mod 64" and "h = q div 64" and "m = q mod 64"
    and "g = h div 64" and "n = h mod 64"
  have 1: "c = q * 64 + r" by (simp add: q_def r_def)
  have 2: "q = h * 64 + m" by (simp add: h_def m_def)
  have 3: "h = g * 64 + n" by (simp add: g_def n_def)
  have "g * 262144 + n * 4096 + m * 64 + r = c" using 1 2 3 by linarith
  then show ?thesis by (simp add: div4096 div262144 q_def r_def h_def m_def g_def n_def)
qed

lemma dec1: "b0 < 0x80 \<Longrightarrow> utf8_decode_ignore (b0 # bs) = b0 # utf8_decode_ignore bs"
  by simp

lemma dec2:
  "0xC2 \<le> b0 \<Longrightarrow> b0 \<le> 0xDF \<Longrightarrow> cont b1 \<Longrightarrow>
   utf8_decode_ignore (b0 # b1 # bs) = ((b0 - 0xC0) * 64 + (b1 - 0x80)) # utf8_decode_ignore bs"
  by simp

lemma dec3:
  "0xE0 \<le> b0 \<Longrightarrow> b0 \<le> 0xEF \<Longrightarrow> second3 b0 b1 \<Longrightarrow> cont b2 \<Longrightarrow>
   utf8_decode_ignore (b0 # b1 # b2 # bs) =
     ((b0 - 0xE0) * 4096 + (b1 - 0x80) * 64 + (b2 - 0x80)) # utf8_decode_ignore bs"
  by simp

lemma dec4:
  "0xF0 \<le> b0 \<Longrightarrow> b0 \<le> 0xF4 \<Longrightarrow> second4 b0 b1 \<Longrightarrow> cont b2 \<Longrightarrow> cont b3 \<Longrightarrow>
   utf8_decode_ignore (b0 # b1 # b2 # b3 # bs) =
     ((b0 - 0xF0) * 262144 + (b1 - 0x80) * 4096 + (b2 - 0x80) * 64 + (b3 - 0x80))
       # utf8_decode_ignore bs"
  by simp

lemma cont_mod: "cont (0x80 + x mod 64)"
  by (simp add: cont_def)

lemma second3_enc:
  assumes "0x800 \<le> c" "c < 0x10000" "\<not> (0xD800 \<le> c \<and> c \<le> 0xDFFF)"
  shows "0xE0 + c div 4096 \<le> 0xEF" "second3 (0xE0 + c div 4096) (0x80 + c div 64 mod 64)"
proof -
  define q r h m where "q = c div 64" and "r = c mod 64" and "h = q div 64" and "m = q mod 64"
  have 1: "c = q * 64 + r" "r < 64" by (simp_all add: q_def r_def)
  have 2: "q = h * 64 + m" "m < 64" by (simp_all add: h_def m_def)
  have h: "c div 4096 = h" by (simp add: div4096 h_def q_def)
  have m: "c div 64 mod 64 = m" by (simp add: m_def q_def)
  show "0xE0 + c div 4096 \<le> 0xEF" unfolding h using 1 2 assms by linarith
  have a: "h = 0 \<Longrightarrow> 32 \<le> m" using 1 2 assms by linarith
  have b: "h = 13 \<Longrightarrow> m < 32" using 1 2 assms by linarith
  show "second3 (0xE0 + c div 4096) (0x80 + c div 64 mod 64)"
    unfolding h m second3_def cont_def using a b 2 by auto
qed

lemma second4_enc:
  assumes "0x10000 \<le> c" "c \<le> 0x10FFFF"
  shows "0xF0 + c div 262144 \<le> 0xF4" "second4 (0xF0 + c div 262144) (0x80 + c div 4096 mod 64)"
proof -
  define q r h m g n where "q = c div 64" and "r = c mod 64" and "h = q div 64" and "m = q mod 64"
    and "g = h div 64" and "n = h mod 64"
  have 1: "c = q * 64 + r" "r < 64" by (simp_all add: q_def r_def)
  have 2: "q = h * 64 + m" "m < 64" by (simp_all add: h_def m_def)
  have 3: "h = g * 64 + n" "n < 64" by (simp_all add: g_def n_def)
  have g: "c div 262144 = g" by (simp add: div262144 g_def h_def q_def)
  have n: "c div 4096 mod 64 = n" by (simp add: div4096 n_def h_def q_def)
  show "0xF0 + c div 262144 \<le> 0xF4" unfolding g using 1 2 3 assms by linarith
  have a: "g = 0 \<Longrightarrow> 16 \<le> n" using 1 2 3 assms by linarith
  have b: "g = 4 \<Longrightarrow> n < 16" using 1 2 3 assms by linarith
  show "second4 (0xF0 + c div 262144) (0x80 + c div 4096 mod 64)"
    unfolding g n second4_def cont_def using a b 3 by auto
qed

lemma dec_char:
  "utf8_decode_ignore (utf8_encode_char c @ bs) =
     (if encodable c then [c] else []) @ utf8_decode_ignore bs"
proof -
  consider (a) "c < 0x80" | (b) "0x80 \<le> c" "c < 0x800"
    | (s) "0xD800 \<le> c" "c \<le> 0xDFFF"
    | (c) "0x800 \<le> c" "c < 0x10000" "\<not> (0xD800 \<le> c \<and> c \<le> 0xDFFF)"
    | (d) "0x10000 \<le> c" "c \<le> 0x10FFFF" | (e) "0x10FFFF < c"
    by linarith
  then show ?thesis
  proof cases
    case a
    then show ?thesis
      by (simp add: utf8_encode_char_def encodable_def dec1 del: utf8_decode_ignore.simps)
  next
    case b
    have e: "utf8_encode_char c = [0xC0 + c div 64, 0x80 + c mod 64]"
      using b by (simp add: utf8_encode_char_def)
    have r: "0xC2 \<le> 0xC0 + c div 64" "0xC0 + c div 64 \<le> 0xDF" using b by linarith+
    have "encodable c" using b by (simp add: encodable_def)
    then show ?thesis
      using dec2 [OF r cont_mod, of c bs] by (simp add: e del: utf8_decode_ignore.simps)
  next
    case s
    then show ?thesis
      by (simp add: utf8_encode_char_def encodable_def del: utf8_decode_ignore.simps)
  next
    case c
    have e: "utf8_encode_char c = [0xE0 + c div 4096, 0x80 + c div 64 mod 64, 0x80 + c mod 64]"
      using c by (simp add: utf8_encode_char_def)
    have r: "0xE0 \<le> 0xE0 + c div 4096" by simp
    have "encodable c" using c unfolding encodable_def by linarith
    then show ?thesis
      using dec3 [OF r second3_enc [OF c] cont_mod, of c bs] join3 [of c]
      by (simp add: e del: utf8_decode_ignore.simps)
  next
    case d
    have e: "utf8_encode_char c =
        [0xF0 + c div 262144, 0x80 + c div 4096 mod 64, 0x80 + c div 64 mod 64, 0x80 + c mod 64]"
      using d by (simp add: utf8_encode_char_def)
    have r: "0xF0 \<le> 0xF0 + c div 262144" by simp
    have "encodable c" using d by (simp add: encodable_def)
    then show ?thesis
      using dec4 [OF r second4_enc [OF d] cont_mod cont_mod, of "c div 64" c bs] join4 [of c]
      by (simp add: e del: utf8_decode_ignore.simps)
  next
    case e
    then show ?thesis
      by (simp add: utf8_encode_char_def encodable_def del: utf8_decode_ignore.simps)
  qed
qed

lemma utf8_roundtrip: "utf8_decode_ignore (utf8_encode_ignore s) = filter encodable s"
  by (induction s) (simp_all add: utf8_encode_ignore_def dec_char del: utf8_decode_ignore.simps(2))

section \<open>The canonical reordering\<close>

lemma set_place: "set (place ccc x acc) = insert x (set acc)"
  by (induction acc) auto

lemma set_sort_step: "set (sort_step ccc acc x) = insert x (set acc)"
  by (simp add: sort_step_def set_place)

lemma set_foldl_sort: "set (foldl (sort_step ccc) acc s) = set s \<union> set acc"
  by (induction s arbitrary: acc) (auto simp: set_sort_step)

lemma set_canonical_sort: "set (canonical_sort ccc s) = set s"
  by (simp add: canonical_sort_def set_foldl_sort)

lemma hd_place: "hd (place ccc x acc) = x \<or> (acc \<noteq> [] \<and> hd (place ccc x acc) = hd acc)"
  by (cases acc) auto

lemma place_order:
  "ccc x \<noteq> 0 \<Longrightarrow> successively (\<lambda>y p. in_order ccc p y) acc \<Longrightarrow>
   successively (\<lambda>y p. in_order ccc p y) (place ccc x acc)"
proof (induction acc)
  case Nil
  then show ?case by simp
next
  case (Cons p ps)
  show ?case
  proof (cases "ccc p = 0 \<or> ccc p \<le> ccc x")
    case True
    then show ?thesis using Cons.prems by (auto simp: in_order_def)
  next
    case False
    have ps: "successively (\<lambda>y p. in_order ccc p y) ps"
      using Cons.prems(2) by (auto simp: successively_Cons)
    have ih: "successively (\<lambda>y p. in_order ccc p y) (place ccc x ps)"
      using Cons.IH [OF Cons.prems(1) ps] .
    have "place ccc x ps \<noteq> []" by (cases ps) auto
    moreover have "in_order ccc (hd (place ccc x ps)) p"
      using hd_place [of ccc x ps] False Cons.prems(2)
      by (auto simp: in_order_def successively_Cons)
    ultimately show ?thesis using False ih by (simp add: successively_Cons)
  qed
qed

lemma sort_step_order:
  "successively (\<lambda>y p. in_order ccc p y) acc \<Longrightarrow>
   successively (\<lambda>y p. in_order ccc p y) (sort_step ccc acc x)"
proof (cases "ccc x = 0")
  case True
  assume "successively (\<lambda>y p. in_order ccc p y) acc"
  then show ?thesis using True by (simp add: sort_step_def successively_Cons in_order_def)
next
  case False
  assume "successively (\<lambda>y p. in_order ccc p y) acc"
  then show ?thesis using False by (simp add: sort_step_def place_order)
qed

lemma foldl_sort_order:
  "successively (\<lambda>y p. in_order ccc p y) acc \<Longrightarrow>
   successively (\<lambda>y p. in_order ccc p y) (foldl (sort_step ccc) acc s)"
  by (induction s arbitrary: acc) (auto simp: sort_step_order)

lemma canonical_sort_order: "successively (in_order ccc) (canonical_sort ccc s)"
  using foldl_sort_order [of ccc "[]" s] by (simp add: canonical_sort_def successively_rev)

lemma sort_step_in_order:
  "acc = [] \<or> in_order ccc (hd acc) x \<Longrightarrow> sort_step ccc acc x = x # acc"
  by (cases acc) (auto simp: sort_step_def in_order_def)

lemma foldl_sort_ordered:
  "successively (in_order ccc) (rev acc @ s) \<Longrightarrow> foldl (sort_step ccc) acc s = rev s @ acc"
proof (induction s arbitrary: acc)
  case Nil
  then show ?case by simp
next
  case (Cons x xs)
  have "acc = [] \<or> in_order ccc (hd acc) x"
    using Cons.prems by (cases acc) (auto simp: successively_append_iff)
  then have s: "sort_step ccc acc x = x # acc" by (rule sort_step_in_order)
  have "successively (in_order ccc) (rev (x # acc) @ xs)" using Cons.prems by simp
  from Cons.IH [OF this] show ?case by (simp add: s)
qed

lemma canonical_sort_ordered:
  "successively (in_order ccc) s \<Longrightarrow> canonical_sort ccc s = s"
  using foldl_sort_ordered [of ccc "[]" s] by (simp add: canonical_sort_def)

section \<open>The decomposition\<close>

lemma decompose_stack_Nil: "decompose_stack U k [] = Some []"
  by (subst decompose_stack.simps) simp

lemma decompose_stack_single:
  "undecomposable U c \<Longrightarrow> decompose_stack U k [c] = Some [c]"
  by (subst decompose_stack.simps) (simp add: undecomposable_def decompose_stack_Nil)

lemma decompose_str_fixed:
  "\<forall>c \<in> set t. undecomposable U c \<Longrightarrow> decompose_str U k t = Some t"
  by (induction t) (simp_all add: decompose_stack_single)

lemma hangul_parts:
  assumes "hangul_syllable c" and "d \<in> set (hangul_decompose c)"
  shows "0x1100 \<le> d \<and> d \<le> 0x11FF"
proof -
  define si where "si = c - 0xAC00"
  have si: "si < 11172" using assms(1) unfolding hangul_syllable_def si_def by linarith
  have a: "si div 588 \<le> 18" using si by linarith
  have b: "si mod 588 div 28 \<le> 20"
  proof -
    have "si mod 588 < 588" by simp
    then show ?thesis by linarith
  qed
  have c: "si mod 28 < 28" by simp
  have "d = 0x1100 + si div 588 \<or> d = 0x1161 + si mod 588 div 28 \<or> d = 0x11A7 + si mod 28"
    using assms(2) by (auto simp: hangul_decompose_def Let_def si_def split: if_splits)
  then show ?thesis using a b c by linarith
qed

lemma hangul_settled:
  assumes "lower_keeps_normal U" and "hangul_syllable c" and "d \<in> set (hangul_decompose c)"
  shows "undecomposable U d \<and> encodable d"
proof -
  have r: "0x1100 \<le> d \<and> d \<le> 0x11FF" using assms(2,3) by (rule hangul_parts)
  then have "snd (decomp U d) = []" using assms(1) by (simp add: lower_keeps_normal_def)
  moreover have "\<not> hangul_syllable d" using r by (simp add: hangul_syllable_def)
  moreover have "encodable d" using r by (simp add: encodable_def)
  ultimately show ?thesis by (simp add: undecomposable_def)
qed

lemma decompose_stack_settled_aux:
  assumes "decompose_stack U k st = Some out"
  shows "lower_keeps_normal U \<longrightarrow> k \<longrightarrow> (\<forall>c \<in> set st. encodable c) \<longrightarrow>
         (\<forall>c \<in> set out. undecomposable U c \<and> encodable c)"
proof (rule decompose_stack.raw_induct [where P = "\<lambda>U k st out.
    lower_keeps_normal U \<longrightarrow> k \<longrightarrow> (\<forall>c \<in> set st. encodable c) \<longrightarrow>
         (\<forall>c \<in> set out. undecomposable U c \<and> encodable c)", OF _ assms], goal_cases)
  case (1 f U k st out)
  show ?case
  proof (intro impI)
    assume u: "lower_keeps_normal U" and k: k and e: "\<forall>c \<in> set st. encodable c"
    show "\<forall>c \<in> set out. undecomposable U c \<and> encodable c"
    proof (cases st)
      case Nil
      then show ?thesis using 1(2) by simp
    next
      case (Cons code rest)
      have rest: "\<forall>c \<in> set rest. encodable c" using e Cons by simp
      consider (h) "hangul_syllable code"
        | (n) "\<not> hangul_syllable code" "snd (decomp U code) = []"
        | (d) "\<not> hangul_syllable code" "snd (decomp U code) \<noteq> []"
        by blast
      then show ?thesis
      proof cases
        case h
        then obtain o' where o: "f U k rest = Some o'" and out: "out = hangul_decompose code @ o'"
          using 1(2) Cons by (auto simp: bind_eq_Some_conv)
        have "\<forall>c \<in> set o'. undecomposable U c \<and> encodable c"
          using 1(1) [OF o] u k rest by blast
        then show ?thesis using out hangul_settled [OF u h] by auto
      next
        case n
        then obtain o' where o: "f U k rest = Some o'" and out: "out = code # o'"
          using 1(2) Cons by (auto simp: bind_eq_Some_conv)
        have "\<forall>c \<in> set o'. undecomposable U c \<and> encodable c"
          using 1(1) [OF o] u k rest by blast
        moreover have "undecomposable U code \<and> encodable code"
          using n e Cons by (simp add: undecomposable_def)
        ultimately show ?thesis using out by auto
      next
        case d
        then have o: "f U k (snd (decomp U code) @ rest) = Some out"
          using 1(2) Cons k by simp
        have "\<forall>c \<in> set (snd (decomp U code) @ rest). encodable c"
          using u rest by (auto simp: lower_keeps_normal_def)
        then show ?thesis using 1(1) [OF o] u k by blast
      qed
    qed
  qed
qed

lemma decompose_str_settled:
  "lower_keeps_normal U \<Longrightarrow> decompose_str U True s = Some out \<Longrightarrow> \<forall>c \<in> set s. encodable c \<Longrightarrow>
   \<forall>c \<in> set out. undecomposable U c \<and> encodable c"
proof (induction s arbitrary: out)
  case Nil
  then show ?case by simp
next
  case (Cons c cs)
  from Cons.prems(2) obtain a b where a: "decompose_stack U True [c] = Some a"
    and b: "decompose_str U True cs = Some b" and out: "out = a @ b"
    by (auto simp: bind_eq_Some_conv)
  have "\<forall>x \<in> set a. undecomposable U x \<and> encodable x"
    using decompose_stack_settled_aux [OF a] Cons.prems(1,3) by simp
  moreover have "\<forall>x \<in> set b. undecomposable U x \<and> encodable x"
    using Cons.IH [OF Cons.prems(1) b] Cons.prems(3) by simp
  ultimately show ?case using out by auto
qed

section \<open>Lower-casing and stripping\<close>

lemma lower_ucs4_settled:
  assumes u: "lower_keeps_normal U" and c: "undecomposable U c" "encodable c"
  shows "\<exists>d. lower_ucs4 U pre c post = [d] \<and> undecomposable U d \<and> encodable d \<and> d \<noteq> 0x3A3
           \<and> tolower_full U d = [d] \<and> combining U d = combining U c"
proof (cases "c = 0x3A3")
  case True
  have s: "\<forall>d \<in> {0x3C2, 0x3C3}.
      undecomposable U d \<and> combining U d = combining U 0x3A3 \<and> tolower_full U d = [d]"
    using u by (simp add: lower_keeps_normal_def)
  have e: "encodable 0x3C2" "encodable 0x3C3" by (simp_all add: encodable_def)
  show ?thesis
  proof (cases "final_sigma U pre post")
    case True
    then have "lower_ucs4 U pre c post = [0x3C2]" using \<open>c = 0x3A3\<close> by (simp add: lower_ucs4_def)
    then show ?thesis using s e \<open>c = 0x3A3\<close> by simp
  next
    case False
    then have "lower_ucs4 U pre c post = [0x3C3]" using \<open>c = 0x3A3\<close> by (simp add: lower_ucs4_def)
    then show ?thesis using s e \<open>c = 0x3A3\<close> by simp
  qed
next
  case False
  have "\<forall>c. undecomposable U c \<and> encodable c \<and> c \<noteq> 0x3A3 \<longrightarrow>
        (\<exists>d. tolower_full U c = [d] \<and> undecomposable U d \<and> encodable d \<and> d \<noteq> 0x3A3
             \<and> combining U d = combining U c \<and> tolower_full U d = [d])"
    using u by (simp add: lower_keeps_normal_def)
  then obtain d where "tolower_full U c = [d]" "undecomposable U d" "encodable d" "d \<noteq> 0x3A3"
    "combining U d = combining U c" "tolower_full U d = [d]"
    using c False by blast
  then show ?thesis using False by (simp add: lower_ucs4_def)
qed

lemma do_lower_settled:
  assumes u: "lower_keeps_normal U"
  shows "\<forall>c \<in> set x. undecomposable U c \<and> encodable c \<Longrightarrow>
     (\<forall>d \<in> set (do_lower U pre x).
        undecomposable U d \<and> encodable d \<and> d \<noteq> 0x3A3 \<and> tolower_full U d = [d]) \<and>
     map (combining U) (do_lower U pre x) = map (combining U) x"
proof (induction x arbitrary: pre)
  case Nil
  then show ?case by simp
next
  case (Cons c cs)
  have c: "undecomposable U c" "encodable c" using Cons.prems by simp_all
  obtain d where d: "lower_ucs4 U pre c cs = [d]" "undecomposable U d" "encodable d"
    "d \<noteq> 0x3A3" "tolower_full U d = [d]" "combining U d = combining U c"
    using lower_ucs4_settled [OF u c, of pre cs] by blast
  have "\<forall>c \<in> set cs. undecomposable U c \<and> encodable c" using Cons.prems by simp
  from Cons.IH [OF this, of "c # pre"] d show ?case by simp
qed

lemma do_lower_fixed:
  "\<forall>d \<in> set y. d \<noteq> 0x3A3 \<and> tolower_full U d = [d] \<Longrightarrow> do_lower U pre y = y"
  by (induction y arbitrary: pre) (simp_all add: lower_ucs4_def)

lemma in_order_map:
  "successively (in_order ccc) s = successively (\<lambda>a b. b = 0 \<or> a \<le> b) (map ccc s)"
  by (simp add: successively_map in_order_def)

lemma in_order_same_classes:
  "map ccc y = map ccc x \<Longrightarrow> successively (in_order ccc) x \<Longrightarrow> successively (in_order ccc) y"
  by (simp add: in_order_map)

lemma successively_dropWhile:
  "successively P xs \<Longrightarrow> successively P (dropWhile Q xs)"
  by (induction xs) (auto simp: successively_Cons)

lemma successively_strip: "successively P s \<Longrightarrow> successively P (strip s)"
proof -
  assume "successively P s"
  then have "successively P (dropWhile isspace s)" by (rule successively_dropWhile)
  then have "successively (\<lambda>x y. P y x) (rev (dropWhile isspace s))"
    by (simp add: successively_rev)
  then have "successively (\<lambda>x y. P y x) (dropWhile isspace (rev (dropWhile isspace s)))"
    by (rule successively_dropWhile)
  then show ?thesis by (simp add: strip_def lstrip_def rstrip_def successively_rev)
qed

lemma set_strip: "set (strip s) \<subseteq> set s"
proof -
  have "set (dropWhile isspace (rev (dropWhile isspace s))) \<subseteq> set (rev (dropWhile isspace s))"
    by (rule set_dropWhileD [THEN subsetI]) 
  moreover have "set (dropWhile isspace s) \<subseteq> set s" by (rule set_dropWhileD [THEN subsetI])
  ultimately show ?thesis by (auto simp: strip_def lstrip_def rstrip_def)
qed

lemma dropWhile_no_head: "xs = [] \<or> \<not> P (hd xs) \<Longrightarrow> dropWhile P xs = xs"
  by (cases xs) auto

lemma rev_dropWhile_rev_head:
  "rev (dropWhile P (rev a)) \<noteq> [] \<Longrightarrow> hd (rev (dropWhile P (rev a))) = hd a"
proof (induction a rule: rev_induct)
  case Nil
  then show ?case by simp
next
  case (snoc x xs)
  show ?case
  proof (cases "P x")
    case True
    then show ?thesis using snoc by (cases xs) auto
  next
    case False
    then show ?thesis by (cases xs) auto
  qed
qed

lemma rev_dropWhile_rev_nonempty: "rev (dropWhile P (rev a)) \<noteq> [] \<Longrightarrow> a \<noteq> []"
  by auto

lemma strip_strip: "strip (strip s) = strip s"
proof -
  let ?a = "dropWhile isspace s"
  let ?b = "rev (dropWhile isspace (rev ?a))"
  have a: "?a = [] \<or> \<not> isspace (hd ?a)" using hd_dropWhile [of isspace s] by blast
  have "?b = [] \<or> \<not> isspace (hd ?b)"
  proof (cases "?b = []")
    case True
    then show ?thesis by blast
  next
    case False
    then have h: "hd ?b = hd ?a" by (rule rev_dropWhile_rev_head)
    have "?a \<noteq> []" using False by (rule rev_dropWhile_rev_nonempty)
    then have "\<not> isspace (hd ?a)" using a by blast
    then show ?thesis using h by metis
  qed
  then have 1: "dropWhile isspace ?b = ?b" by (rule dropWhile_no_head)
  have 2: "rev (dropWhile isspace (rev ?b)) = ?b" by simp
  show ?thesis unfolding strip_def lstrip_def rstrip_def by (simp only: 1 2)
qed

section \<open>The normalisation\<close>

text \<open>
  C1, as the code has it. The normalisation is the composition of four stages: the
  compatibility decomposition (form NFKD), the encoding to UTF-8 and back, which drops
  exactly the code points that UTF-8 cannot represent, the lower-casing and the
  stripping.
\<close>

theorem normalize_transcript_stages:
  "normalize_transcript U s =
     map_option (strip \<circ> str_lower U \<circ> utf8_decode_ignore \<circ> utf8_encode_ignore)
       (unicodedata_normalize U NFKD s) \<and>
   (utf8_decode_ignore \<circ> utf8_encode_ignore) t = filter encodable t"
  by (simp add: normalize_transcript_def utf8_roundtrip split: option.splits
      del: utf8_decode_ignore.simps)

lemmas ucd_simps =
  normalize_transcript_def normalize_spec_def unicodedata_normalize_def nfd_nfkd_def
  decompose_stack.simps ucd_sample_def hangul_syllable_def canonical_sort_def sort_step_def
  lit_def utf8_encode_ignore_def utf8_encode_char_def str_lower_def lower_ucs4_def
  cont_def second3_def second4_def strip_def lstrip_def rstrip_def isspace_def

theorem normalize_transcript_stages_witness:
  "normalize_transcript ucd_sample [0x20, 0xFB01, 0x4E, 0xD800, 0xA0] = Some (lit ''fin'') \<and>
   unicodedata_normalize ucd_sample NFKD [0x20, 0xFB01, 0x4E, 0xD800, 0xA0]
     = Some [0x20, 0x66, 0x69, 0x4E, 0xD800, 0x20] \<and>
   (utf8_decode_ignore \<circ> utf8_encode_ignore) [0x20, 0x66, 0x69, 0x4E, 0xD800, 0x20]
     = [0x20, 0x66, 0x69, 0x4E, 0x20]"
  using normalize_transcript_stages [of ucd_sample "[0x20, 0xFB01, 0x4E, 0xD800, 0xA0]"
      "[0x20, 0x66, 0x69, 0x4E, 0xD800, 0x20]"]
  by (simp add: ucd_simps encodable_def)

text \<open>
  The ligature fi has a compatibility mapping and no canonical one: the script turns it
  into the two letters, the normalisation of the specification leaves it.
\<close>

theorem normalize_transcript_stages_counterexample:
  "normalize_transcript ucd_sample [0xFB01] = Some (lit ''fi'') \<and>
   normalize_spec ucd_sample [0xFB01] = Some [0xFB01]"
  by (simp add: ucd_simps)

lemma normalize_parts:
  assumes "normalize_transcript U s = Some t"
  shows "\<exists>d. decompose_str U True s = Some d \<and>
    t = strip (str_lower U (filter encodable (canonical_sort (combining U) d)))"
  using assms
  by (auto simp: normalize_transcript_def unicodedata_normalize_def nfd_nfkd_def utf8_roundtrip
      bind_eq_Some_conv split: option.splits simp del: utf8_decode_ignore.simps)

text \<open>
  C2. The normalisation is idempotent. The database is a parameter, and the proof uses
  four of its properties, those of \<open>lower_keeps_normal\<close>: the mappings hold code points of
  Unicode only; the conjoining jamo have no mapping; the lower-case mapping of an
  undecomposable code point other than the capital sigma is one undecomposable code point
  of the same combining class, not the capital sigma, which is its own lower case; the
  two small sigmas are undecomposable, of the combining class of the capital sigma, and
  their own lower case. The string is one of code points that UTF-8 can represent: the
  reader of line 125 decodes the file strictly, so that every line it yields is such a
  string. Then a normalisation that returns gives a fixed point: normalising its output
  returns that output.
\<close>

theorem normalize_idempotent:
  "lower_keeps_normal U \<Longrightarrow> \<forall>c \<in> set s. encodable c \<Longrightarrow> normalize_transcript U s = Some t \<Longrightarrow>
   normalize_transcript U t = Some t"
proof -
  assume u: "lower_keeps_normal U" and s: "\<forall>c \<in> set s. encodable c"
    and n: "normalize_transcript U s = Some t"
  let ?ccc = "combining U"
  from normalize_parts [OF n] obtain d where d: "decompose_str U True s = Some d"
    and t: "t = strip (str_lower U (filter encodable (canonical_sort ?ccc d)))"
    by blast
  let ?n = "canonical_sort ?ccc d"
  have dn: "\<forall>c \<in> set ?n. undecomposable U c \<and> encodable c"
    using decompose_str_settled [OF u d s] by (simp add: set_canonical_sort)
  then have f: "filter encodable ?n = ?n" by (simp add: filter_id_conv)
  let ?y = "do_lower U [] ?n"
  have ty: "t = strip ?y" using t f by (simp add: str_lower_def)
  have y: "\<forall>d \<in> set ?y. undecomposable U d \<and> encodable d \<and> d \<noteq> 0x3A3 \<and> tolower_full U d = [d]"
    and yc: "map ?ccc ?y = map ?ccc ?n"
    using do_lower_settled [OF u dn, of "[]"] by blast+
  have yo: "successively (in_order ?ccc) ?y"
    using yc canonical_sort_order [of ?ccc d] by (rule in_order_same_classes)
  have tt: "\<forall>d \<in> set t. undecomposable U d \<and> encodable d \<and> d \<noteq> 0x3A3 \<and> tolower_full U d = [d]"
    using y set_strip [of ?y] ty by blast
  have to: "successively (in_order ?ccc) t" using yo ty by (simp add: successively_strip)
  have 1: "decompose_str U True t = Some t" using tt by (simp add: decompose_str_fixed)
  have 2: "canonical_sort ?ccc t = t" using to by (rule canonical_sort_ordered)
  have 3: "filter encodable t = t" using tt by (simp add: filter_id_conv)
  have 4: "str_lower U t = t" using tt by (simp add: str_lower_def do_lower_fixed)
  have 5: "strip t = t" using ty by (simp add: strip_strip)
  show ?thesis
    by (simp add: normalize_transcript_def unicodedata_normalize_def nfd_nfkd_def utf8_roundtrip
        1 2 3 4 5 del: utf8_decode_ignore.simps)
qed

lemma sample_keeps_normal: "lower_keeps_normal ucd_sample"
proof -
  have 1: "\<forall>c. \<forall>d \<in> set (snd (decomp ucd_sample c)). encodable d"
    by (auto simp: ucd_sample_def encodable_def split: if_splits)
  have 2: "\<forall>c. 0x1100 \<le> c \<and> c \<le> 0x11FF \<longrightarrow> snd (decomp ucd_sample c) = []"
    by (auto simp: ucd_sample_def)
  have 3: "\<exists>d. tolower_full ucd_sample c = [d] \<and> undecomposable ucd_sample d \<and> encodable d
      \<and> d \<noteq> 0x3A3 \<and> combining ucd_sample d = combining ucd_sample c
      \<and> tolower_full ucd_sample d = [d]"
    if a: "undecomposable ucd_sample c \<and> encodable c \<and> c \<noteq> 0x3A3" for c
  proof (cases "0x41 \<le> c \<and> c \<le> 0x5A")
    case True
    then show ?thesis
      by (intro exI [of _ "c + 32"])
        (auto simp: ucd_sample_def undecomposable_def hangul_syllable_def encodable_def)
  next
    case False
    then show ?thesis using a
      by (intro exI [of _ c]) (auto simp: ucd_sample_def)
  qed
  have 4: "\<forall>d \<in> {0x3C2, 0x3C3}.
      undecomposable ucd_sample d \<and> combining ucd_sample d = combining ucd_sample 0x3A3
      \<and> tolower_full ucd_sample d = [d]"
    by (auto simp: ucd_sample_def undecomposable_def hangul_syllable_def)
  show ?thesis unfolding lower_keeps_normal_def using 1 2 3 4 by blast
qed

theorem normalize_idempotent_witness:
  "lower_keeps_normal ucd_sample \<and>
   list_all encodable [0x20, 0x212B, 0x323, 0x48, 0xFB01, 0xA0] \<and>
   normalize_transcript ucd_sample [0x20, 0x212B, 0x323, 0x48, 0xFB01, 0xA0]
     = Some [0x61, 0x323, 0x30A, 0x68, 0x66, 0x69] \<and>
   normalize_transcript ucd_sample [0x61, 0x323, 0x30A, 0x68, 0x66, 0x69]
     = Some [0x61, 0x323, 0x30A, 0x68, 0x66, 0x69]"
proof -
  have e: "\<forall>c \<in> set [0x20, 0x212B, 0x323, 0x48, 0xFB01, 0xA0]. encodable c"
    by (simp add: encodable_def)
  have n: "normalize_transcript ucd_sample [0x20, 0x212B, 0x323, 0x48, 0xFB01, 0xA0]
     = Some [0x61, 0x323, 0x30A, 0x68, 0x66, 0x69]"
    by (simp add: ucd_simps)
  show ?thesis
    using normalize_idempotent [OF sample_keeps_normal e n] sample_keeps_normal e n by simp
qed

text \<open>
  What the hypothesis on the code points is for. A \<^verbatim>\<open>str\<close> built by other means than
  decoding may hold a lone surrogate. Between two combining marks it keeps them from
  being reordered; the encoding drops it, and the marks of the result are out of
  canonical order. No line of a transcript file is such a string.
\<close>

lemma surrogate_between_marks:
  "\<not> encodable 0xD800 \<and>
   normalize_transcript ucd_sample [0x61, 0x301, 0xD800, 0x323] = Some [0x61, 0x301, 0x323] \<and>
   normalize_transcript ucd_sample [0x61, 0x301, 0x323] = Some [0x61, 0x323, 0x301]"
  by (simp add: ucd_simps encodable_def)

end
